theory Spec2Isabelle
  imports Complex_Main "HOL-Library.Log_Nat"
begin

section \<open>Values shared by the helpers\<close>

text \<open>
  A thrown JavaScript \<^verbatim>\<open>Error\<close> is a value carrying its message. A computation that
  may throw returns \<open>error + 'a\<close>, with \<open>Inl\<close> for the throw.
\<close>

datatype error = Error string

fun message :: "error \<Rightarrow> string" where
  "message (Error m) = m"

text \<open>Decimal rendering of a non-negative integer inside a template literal.\<close>

fun string_of_nat :: "nat \<Rightarrow> string" where
  "string_of_nat n =
     (if n < 10 then [''0123456789'' ! n]
      else string_of_nat (n div 10) @ [''0123456789'' ! (n mod 10)])"

declare string_of_nat.simps [simp del]

text \<open>
  \<^verbatim>\<open>Math.round(x / 1000 / 60)\<close> for an integer number of milliseconds \<open>x\<close>.
  \<^verbatim>\<open>Math.round\<close> rounds to the nearest integer, ties towards plus infinity, which on
  the exact quotient is \<open>\<lfloor>x / 60000 + 1 / 2\<rfloor>\<close>. The double-precision quotient lands
  on the same integer for every \<open>\<bar>x\<bar> < 2 ^ 52\<close>: a tie \<open>x = 30000 * (2 * k + 1)\<close> is
  computed exactly, and every other quotient is at least \<open>1 / 60000\<close> away from a tie.
\<close>

definition round_minutes :: "int \<Rightarrow> int" where
  "round_minutes ms = (ms + 30000) div 60000"

section \<open>StorageHelper.ts: the activity record\<close>

record ActivityRecord =
  app_classification :: string
  goal_relevance :: string
  cognitive_state :: string
  context_switching :: string
  attention_residue :: string
  procrastination_signal :: string
  energy_level :: string
  created_at :: "string option"

text \<open>
  \<^verbatim>\<open>new Date(s).getTime()\<close> for a string \<open>s\<close> is the platform's date parser. It is a
  parameter of the model: \<open>Some ms\<close> is the time value in milliseconds since the epoch,
  \<open>None\<close> is \<^verbatim>\<open>NaN\<close> (an invalid date).
\<close>

type_synonym date_parser = "string \<Rightarrow> int option"

text \<open>
  \<^verbatim>\<open>new Date(a.created_at || 0).getTime()\<close>: a missing or empty \<^verbatim>\<open>created_at\<close> is
  falsy and is replaced by the number 0, the epoch.
\<close>

definition time_of :: "date_parser \<Rightarrow> ActivityRecord \<Rightarrow> int option" where
  "time_of parse a =
     (case created_at a of
        None \<Rightarrow> Some 0
      | Some s \<Rightarrow> if s = [] then Some 0 else parse s)"

text \<open>
  \<^verbatim>\<open>s.split(' - ')[0]\<close>: the part of \<open>s\<close> before the first occurrence of the
  separator, all of \<open>s\<close> when the separator does not occur.
\<close>

fun app_name :: "string \<Rightarrow> string" where
  "app_name [] = []"
| "app_name (c # cs) =
     (if take 3 (c # cs) = '' - '' then [] else c # app_name cs)"

section \<open>LLMHelper.ts: session segmentation\<close>

datatype gap_reason = away_from_computer | app_closed | system_idle

datatype data_quality = high | medium | low

text \<open>
  Dates held by sessions and gaps are always valid ones, so they are their time values in
  milliseconds. \<open>appsUsed\<close> is a JavaScript \<^verbatim>\<open>Set\<close>: distinct members in insertion
  order.
\<close>

record WorkSession =
  id :: string
  startTime :: int
  endTime :: int
  durationMinutes :: int
  activities :: "ActivityRecord list"
  dominantCognitiveState :: string
  appsUsed :: "string list"
  isComplete :: bool

record TimeGap =
  startTime :: int
  endTime :: int
  durationMinutes :: int
  reason :: gap_reason

record SessionAnalysis =
  sessions :: "WorkSession list"
  gaps :: "TimeGap list"
  totalActiveMinutes :: int
  totalGapMinutes :: int
  dataQuality :: data_quality
  warnings :: "string list"

definition MIN_GAP_MINUTES :: int where "MIN_GAP_MINUTES = 5"
definition MAX_SESSION_HOURS :: int where "MAX_SESSION_HOURS = 4"
definition MAX_PROMPT_RETRIES :: nat where "MAX_PROMPT_RETRIES = 3"
definition RETRY_DELAY_MS :: nat where "RETRY_DELAY_MS = 1000"

definition set_add :: "string \<Rightarrow> string list \<Rightarrow> string list" where
  "set_add x xs = (if x \<in> set xs then xs else xs @ [x])"

subsection \<open>The defensive sort\<close>

text \<open>
  \<^verbatim>\<open>[...activities].sort((a, b) => timeA - timeB)\<close>. The comparator's value is
  \<open>None\<close> when either time is \<^verbatim>\<open>NaN\<close>; the sort treats that as 0. The sort is stable,
  so on parsable timestamps its result is the stable ascending order, which the insertion
  sort below computes. When a timestamp is unparsable the comparator is inconsistent and
  the language leaves the order to the implementation; the model then fixes the order
  this insertion sort gives.
\<close>

definition compare_times :: "date_parser \<Rightarrow> ActivityRecord \<Rightarrow> ActivityRecord \<Rightarrow> int option" where
  "compare_times parse a b =
     (case (time_of parse a, time_of parse b) of
        (Some timeA, Some timeB) \<Rightarrow> Some (timeA - timeB)
      | _ \<Rightarrow> None)"

definition sorts_after :: "date_parser \<Rightarrow> ActivityRecord \<Rightarrow> ActivityRecord \<Rightarrow> bool" where
  "sorts_after parse a b = (case compare_times parse a b of Some v \<Rightarrow> v > 0 | None \<Rightarrow> False)"

fun insert_by_time :: "date_parser \<Rightarrow> ActivityRecord \<Rightarrow> ActivityRecord list \<Rightarrow> ActivityRecord list" where
  "insert_by_time parse a [] = [a]"
| "insert_by_time parse a (b # bs) =
     (if sorts_after parse a b then b # insert_by_time parse a bs else a # b # bs)"

definition sort_by_time :: "date_parser \<Rightarrow> ActivityRecord list \<Rightarrow> ActivityRecord list" where
  "sort_by_time parse as = foldr (insert_by_time parse) as []"

subsection \<open>The loop over the sorted records\<close>

record loop_state =
  sessions :: "WorkSession list"
  gaps :: "TimeGap list"
  warnings :: "string list"
  currentSession :: "WorkSession option"
  sessionCounter :: nat

definition initial_loop_state :: loop_state where
  "initial_loop_state =
     \<lparr> sessions = [], gaps = [], warnings = [], currentSession = None, sessionCounter = 0 \<rparr>"

text \<open>
  The gap check of one iteration. \<open>prevTime\<close> is read from the record before in the
  sorted array, whether or not that record was skipped; when it is \<^verbatim>\<open>NaN\<close> so is
  \<^verbatim>\<open>gapMinutes\<close>, and the comparison with the threshold is false.
\<close>

definition check_gap :: "date_parser \<Rightarrow> ActivityRecord list \<Rightarrow> nat \<Rightarrow> int \<Rightarrow> loop_state \<Rightarrow> loop_state" where
  "check_gap parse sortedActivities i activityTime st =
     (if i > 0 then
        (case currentSession st of
           None \<Rightarrow> st
         | Some cur \<Rightarrow>
             (case time_of parse (sortedActivities ! (i - 1)) of
                None \<Rightarrow> st
              | Some prevTime \<Rightarrow>
                  (let gapMinutes = round_minutes (activityTime - prevTime) in
                   if gapMinutes > MIN_GAP_MINUTES then
                     st\<lparr> sessions := sessions st @ [cur\<lparr> isComplete := True \<rparr>],
                         gaps := gaps st @
                           [\<lparr> TimeGap.startTime = prevTime, TimeGap.endTime = activityTime,
                              TimeGap.durationMinutes = gapMinutes,
                              reason = (if gapMinutes > 60 then app_closed
                                        else away_from_computer) \<rparr>],
                         currentSession := None \<rparr>
                   else st)))
      else st)"

definition start_or_extend :: "ActivityRecord \<Rightarrow> int \<Rightarrow> loop_state \<Rightarrow> loop_state" where
  "start_or_extend activity activityTime st =
     (case currentSession st of
        None \<Rightarrow>
          (let n = sessionCounter st + 1 in
           st\<lparr> sessionCounter := n,
               currentSession := Some
                 \<lparr> id = ''session_'' @ string_of_nat n,
                   WorkSession.startTime = activityTime,
                   WorkSession.endTime = activityTime,
                   WorkSession.durationMinutes = 0,
                   activities = [activity],
                   dominantCognitiveState = cognitive_state activity,
                   appsUsed = [app_name (app_classification activity)],
                   isComplete = False \<rparr> \<rparr>)
      | Some cur \<Rightarrow>
          (let d = round_minutes (activityTime - WorkSession.startTime cur);
               cur' = cur\<lparr> WorkSession.endTime := activityTime,
                           activities := activities cur @ [activity],
                           WorkSession.durationMinutes := d,
                           appsUsed := set_add (app_name (app_classification activity))
                                         (appsUsed cur) \<rparr>
           in st\<lparr> currentSession := Some cur',
                  warnings :=
                    (if d > MAX_SESSION_HOURS * 60
                     then warnings st @
                       [''Session '' @ id cur @ '' exceeds '' @
                        string_of_nat (nat MAX_SESSION_HOURS) @ '' hours'']
                     else warnings st) \<rparr>))"

definition loop_body :: "date_parser \<Rightarrow> ActivityRecord list \<Rightarrow> loop_state \<Rightarrow> nat \<Rightarrow> loop_state" where
  "loop_body parse sortedActivities st i =
     (let activity = sortedActivities ! i in
      case time_of parse activity of
        None \<Rightarrow>
          st\<lparr> warnings := warnings st @ [''Invalid timestamp at index '' @ string_of_nat i] \<rparr>
      | Some activityTime \<Rightarrow>
          start_or_extend activity activityTime
            (check_gap parse sortedActivities i activityTime st))"

definition run_loop :: "date_parser \<Rightarrow> ActivityRecord list \<Rightarrow> loop_state" where
  "run_loop parse sortedActivities =
     foldl (loop_body parse sortedActivities) initial_loop_state [0..<length sortedActivities]"

definition close_last :: "loop_state \<Rightarrow> WorkSession list" where
  "close_last st =
     (case currentSession st of
        None \<Rightarrow> sessions st
      | Some cur \<Rightarrow> sessions st @ [cur\<lparr> isComplete := False \<rparr>])"

definition assess_quality :: "nat \<Rightarrow> nat \<Rightarrow> data_quality" where
  "assess_quality warningCount activityCount =
     (if warningCount > 5 then low
      else if warningCount > 0 then medium
      else if activityCount < 10 then medium
      else high)"

definition analyzeWorkSessions :: "date_parser \<Rightarrow> ActivityRecord list \<Rightarrow> SessionAnalysis" where
  "analyzeWorkSessions parse as =
     (if length as = 0 then
        \<lparr> SessionAnalysis.sessions = [], SessionAnalysis.gaps = [],
          totalActiveMinutes = 0, totalGapMinutes = 0,
          dataQuality = low, SessionAnalysis.warnings = [''No activity data provided''] \<rparr>
      else
        (let st = run_loop parse (sort_by_time parse as);
             ss = close_last st
         in \<lparr> SessionAnalysis.sessions = ss,
              SessionAnalysis.gaps = gaps st,
              totalActiveMinutes =
                foldl (\<lambda>sum session. sum + WorkSession.durationMinutes session) 0 ss,
              totalGapMinutes =
                foldl (\<lambda>sum gap. sum + TimeGap.durationMinutes gap) 0 (gaps st),
              dataQuality = assess_quality (length (warnings st)) (length as),
              SessionAnalysis.warnings = warnings st \<rparr>))"


section \<open>LLMHelper.ts: calls to the language model\<close>

text \<open>
  The model service is outside the program. Within one run of a helper the requests it
  sends are fixed by the helper's inputs, so the service is given by the outcome of each
  request in the order the requests are made: the request throws, or it yields a response
  whose \<^verbatim>\<open>text()\<close> either returns the raw text or throws. The request payloads (the
  prompt text and the encoded image) have no influence on the helpers' control flow and
  are not represented.
\<close>

datatype response = Text string | NoText error

type_synonym service = "nat \<Rightarrow> error + response"

text \<open>
  What a run does to the outside: how many requests it has sent, and the delays it has
  waited (milliseconds, in order).
\<close>

record llm_world =
  calls :: nat
  sleeps :: "nat list"

definition generateContent :: "service \<Rightarrow> llm_world \<Rightarrow> (error + response) \<times> llm_world" where
  "generateContent svc w = (svc (calls w), w\<lparr> calls := calls w + 1 \<rparr>)"

fun response_text :: "response \<Rightarrow> error + string" where
  "response_text (Text t) = Inr t"
| "response_text (NoText e) = Inl e"

subsection \<open>retryWithBackoff\<close>

text \<open>
  The loop \<^verbatim>\<open>for (let attempt = 1; attempt <= maxRetries; attempt++)\<close>, entered at
  \<open>attempt\<close> with the last caught error. \<^verbatim>\<open>lastError?.message\<close> of \<^verbatim>\<open>null\<close> renders
  as \<^verbatim>\<open>undefined\<close>.
\<close>

function retry_loop ::
  "(llm_world \<Rightarrow> (error + 'a) \<times> llm_world) \<Rightarrow> nat \<Rightarrow> nat \<Rightarrow> error option \<Rightarrow> llm_world
     \<Rightarrow> (error + 'a) \<times> llm_world" where
  "retry_loop operation maxRetries attempt lastError w =
     (if attempt \<le> maxRetries then
        (case operation w of
           (Inr v, w') \<Rightarrow> (Inr v, w')
         | (Inl e, w') \<Rightarrow>
             retry_loop operation maxRetries (attempt + 1) (Some e)
               (if attempt < maxRetries
                then w'\<lparr> sleeps := sleeps w' @ [RETRY_DELAY_MS * 2 ^ (attempt - 1)] \<rparr>
                else w'))
      else
        (Inl (Error (''Operation failed after '' @ string_of_nat maxRetries @ '' attempts: '' @
                (case lastError of None \<Rightarrow> ''undefined'' | Some e \<Rightarrow> message e))),
         w))"
  by pat_completeness auto
termination
  by (relation "measure (\<lambda>(operation, maxRetries, attempt, lastError, w). Suc maxRetries - attempt)")
     auto

declare retry_loop.simps [simp del]

definition retryWithBackoff ::
  "(llm_world \<Rightarrow> (error + 'a) \<times> llm_world) \<Rightarrow> nat \<Rightarrow> llm_world \<Rightarrow> (error + 'a) \<times> llm_world" where
  "retryWithBackoff operation maxRetries w = retry_loop operation maxRetries 1 None w"

subsection \<open>cleanJsonResponse\<close>

text \<open>
  Texts are lists of 8-bit characters: the code units below 256. Of the line terminators
  of a JavaScript regular expression that leaves line feed and carriage return, and of the
  white space \<^verbatim>\<open>trim\<close> removes it leaves tab, line feed, vertical tab, form feed, carriage
  return, space and no-break space.
\<close>

definition is_line_terminator :: "char \<Rightarrow> bool" where
  "is_line_terminator c \<longleftrightarrow> c = CHR 0x0A \<or> c = CHR 0x0D"

definition is_white_space :: "char \<Rightarrow> bool" where
  "is_white_space c \<longleftrightarrow>
     c = CHR 0x09 \<or> c = CHR 0x0A \<or> c = CHR 0x0B \<or> c = CHR 0x0C \<or> c = CHR 0x0D \<or>
     c = CHR 0x20 \<or> c = CHR 0xA0"

text \<open>
  The length of the match of \<^verbatim>\<open>```(?:json)?\n?\<close> at the front of a text, if there is
  one: the fence, then greedily the word, then greedily one line feed.
\<close>

definition opening_fence :: "string \<Rightarrow> nat option" where
  "opening_fence cs =
     (if take 3 cs = ''```'' then
        (let n = (if take 4 (drop 3 cs) = ''json'' then 7 else 3) in
         Some (if take 1 (drop n cs) = [CHR 0x0A] then n + 1 else n))
      else None)"

text \<open>
  \<^verbatim>\<open>text.replace(/^```(?:json)?\n?/gm, '')\<close>: every match is deleted, scanning from the
  left; a match can start only at a line start, that is at the start of the text or after
  a line terminator. \<open>skip\<close> counts the characters of the current match still to delete,
  \<open>bol\<close> says whether the position is a line start.
\<close>

fun strip_opening :: "nat \<Rightarrow> bool \<Rightarrow> string \<Rightarrow> string" where
  "strip_opening skip bol [] = []"
| "strip_opening (Suc k) bol (c # cs) = strip_opening k (is_line_terminator c) cs"
| "strip_opening 0 bol (c # cs) =
     (case (if bol then opening_fence (c # cs) else None) of
        Some n \<Rightarrow> strip_opening (n - 1) (is_line_terminator c) cs
      | None \<Rightarrow> c # strip_opening 0 (is_line_terminator c) cs)"

text \<open>
  The length of the match of \<^verbatim>\<open>\n?```$\<close> at the front of a text, if there is one: the
  fence, with or without a line feed before it, has to end at the end of the text or
  before a line terminator.
\<close>

definition at_line_end :: "string \<Rightarrow> bool" where
  "at_line_end cs = (case cs of [] \<Rightarrow> True | c # _ \<Rightarrow> is_line_terminator c)"

definition closing_fence :: "string \<Rightarrow> nat option" where
  "closing_fence cs =
     (if take 4 cs = CHR 0x0A # ''```'' \<and> at_line_end (drop 4 cs) then Some 4
      else if take 3 cs = ''```'' \<and> at_line_end (drop 3 cs) then Some 3
      else None)"

fun strip_closing :: "nat \<Rightarrow> string \<Rightarrow> string" where
  "strip_closing skip [] = []"
| "strip_closing (Suc k) (c # cs) = strip_closing k cs"
| "strip_closing 0 (c # cs) =
     (case closing_fence (c # cs) of
        Some n \<Rightarrow> strip_closing (n - 1) cs
      | None \<Rightarrow> c # strip_closing 0 cs)"

definition trim :: "string \<Rightarrow> string" where
  "trim cs = rev (dropWhile is_white_space (rev (dropWhile is_white_space cs)))"

definition cleanJsonResponse :: "string \<Rightarrow> error + string" where
  "cleanJsonResponse text =
     (if text = [] then Inl (Error ''Invalid response text from LLM'')
      else
        (let text = trim (strip_closing 0 (strip_opening 0 True text)) in
         if \<not> (take 1 text = ''{'' \<and> text \<noteq> [] \<and> last text = CHR ''}'')
         then Inl (Error ''Response does not appear to be valid JSON'')
         else Inr text))"

subsection \<open>Parsed replies\<close>

text \<open>
  \<^verbatim>\<open>JSON.parse\<close> is the platform's parser and a parameter of the model. It is only
  applied to texts that start with an opening and end with a closing brace; when it
  returns, the value is then an object, given by its own properties in order, one entry
  for each key.
\<close>

datatype json =
  JNull | JBool bool | JNumber rat | JString string | JArray "json list"
| JObject "(string \<times> json) list"

type_synonym json_object = "(string \<times> json) list"

type_synonym json_parser = "string \<Rightarrow> error + json_object"

text \<open>
  \<^verbatim>\<open>record.hasOwnProperty(field)\<close> looks the method up on the record first: a parsed
  object with an own property of that name holds a value there that is not a function,
  and the call throws a \<^verbatim>\<open>TypeError\<close>.
\<close>

definition required_fields :: "string list" where
  "required_fields =
     [''app_classification'', ''goal_relevance'', ''cognitive_state'', ''context_switching'',
      ''attention_residue'', ''procrastination_signal'', ''energy_level'']"

definition field_present :: "json_object \<Rightarrow> string \<Rightarrow> bool" where
  "field_present record field =
     (case map_of record field of None \<Rightarrow> False | Some JNull \<Rightarrow> False | Some _ \<Rightarrow> True)"

definition validateActivityRecord :: "json_object \<Rightarrow> error + bool" where
  "validateActivityRecord record =
     (if map_of record ''hasOwnProperty'' \<noteq> None
      then Inl (Error ''record.hasOwnProperty is not a function'')
      else Inr (list_all (field_present record) required_fields))"

subsection \<open>readImageFile\<close>

text \<open>
  \<^verbatim>\<open>fs.readFile\<close> is a parameter: the file's content, or the error it throws. The
  content only goes into the request payload, so its encoding is not represented.
\<close>

type_synonym file_reader = "string \<Rightarrow> error + string"

definition readImageFile :: "file_reader \<Rightarrow> string \<Rightarrow> error + string" where
  "readImageFile readFile imagePath =
     (case readFile imagePath of
        Inr imageData \<Rightarrow> Inr imageData
      | Inl e \<Rightarrow> Inl (Error (''Cannot read screenshot file: '' @ message e)))"

subsection \<open>classifyProductivityActivity\<close>

record platform =
  readFile :: file_reader
  model :: service
  json_parse :: json_parser
  date_parse :: date_parser
  now_iso :: string

text \<open>
  The parameter is declared a string; at run time a caller can pass any value, and the
  guard tells a string from the rest.
\<close>

datatype path_argument = PathString string | NotAString

definition fallback_record :: json_object where
  "fallback_record =
     [(''app_classification'', JString ''Unknown - Error in classification''),
      (''goal_relevance'', JString ''work_unrelated''),
      (''cognitive_state'', JString ''break''),
      (''context_switching'', JString ''new_task''),
      (''attention_residue'', JString ''multiple_contexts''),
      (''procrastination_signal'', JString ''none''),
      (''energy_level'', JString ''low_energy_tasks'')]"

text \<open>What follows the model's reply inside the \<^verbatim>\<open>try\<close> block.\<close>

definition classification_of_response :: "platform \<Rightarrow> response \<Rightarrow> error + json_object" where
  "classification_of_response p result =
     (case response_text result of
        Inl e \<Rightarrow> Inl e
      | Inr raw \<Rightarrow>
          (case cleanJsonResponse raw of
             Inl e \<Rightarrow> Inl e
           | Inr text \<Rightarrow>
               (case json_parse p text of
                  Inl e \<Rightarrow> Inl e
                | Inr parsed \<Rightarrow>
                    (case validateActivityRecord parsed of
                       Inl e \<Rightarrow> Inl e
                     | Inr valid \<Rightarrow>
                         if \<not> valid
                         then Inl (Error ''Invalid activity classification format from LLM'')
                         else Inr parsed))))"

text \<open>The body of the \<^verbatim>\<open>try\<close> block.\<close>

definition classify_attempt :: "platform \<Rightarrow> string \<Rightarrow> llm_world \<Rightarrow> (error + json_object) \<times> llm_world" where
  "classify_attempt p imagePath w =
     (case readImageFile (readFile p) imagePath of
        Inl e \<Rightarrow> (Inl e, w)
      | Inr imageData \<Rightarrow>
          (case retryWithBackoff (generateContent (model p)) MAX_PROMPT_RETRIES w of
             (Inl e, w') \<Rightarrow> (Inl e, w')
           | (Inr result, w') \<Rightarrow> (classification_of_response p result, w')))"

definition classifyProductivityActivity ::
  "platform \<Rightarrow> path_argument \<Rightarrow> llm_world \<Rightarrow> (error + json_object) \<times> llm_world" where
  "classifyProductivityActivity p imagePath w =
     (case imagePath of
        NotAString \<Rightarrow> (Inl (Error ''Invalid image path provided''), w)
      | PathString path \<Rightarrow>
          if path = [] then (Inl (Error ''Invalid image path provided''), w)
          else
            (case classify_attempt p path w of
               (Inr activityRecord, w') \<Rightarrow> (Inr activityRecord, w')
             | (Inl e, w') \<Rightarrow> (Inr fallback_record, w')))"


subsection \<open>generateDailyInsights\<close>

record InsightsMetadata =
  generatedAt :: string
  dataPoints :: nat
  sessionsAnalyzed :: nat

text \<open>
  The returned object spreads the parsed reply and adds the metadata. It is represented
  by the fields its interface declares; other properties a reply may carry are dropped.
\<close>

record DailyInsights =
  executiveSummary :: string
  productivityNarrative :: string
  behavioralPatterns :: string
  recommendations :: string
  metadata :: InsightsMetadata







section \<open>ScreenshotHelper.ts: the capture queues\<close>

datatype view = queue | solutions

record ScreenshotHelper =
  screenshotQueue :: "string list"
  extraScreenshotQueue :: "string list"
  screenshotDir :: string
  extraScreenshotDir :: string
  view :: view

definition MAX_SCREENSHOTS :: nat where "MAX_SCREENSHOTS = 5"

text \<open>The constructor: both queues start empty.\<close>

definition new_ScreenshotHelper :: "string \<Rightarrow> string \<Rightarrow> view \<Rightarrow> ScreenshotHelper" where
  "new_ScreenshotHelper dir extraDir v =
     \<lparr> screenshotQueue = [], extraScreenshotQueue = [], screenshotDir = dir,
       extraScreenshotDir = extraDir, view = v \<rparr>"

text \<open>
  What a call does to the outside, in order: the two window callbacks, the capture
  primitive writing a file, the deletion of a file, and a line on the error console.
\<close>

datatype effect =
  HideMainWindow | ShowMainWindow | Screenshot string | Unlink string | ConsoleError

text \<open>
  What the outside contributes to one call: the fresh identifier, whether the capture
  primitive throws, and whether the deletion throws.
\<close>

record capture_outcome =
  uuid :: string
  screenshot_error :: "error option"
  unlink_error :: "error option"

text \<open>\<^verbatim>\<open>path.join\<close> of a directory and a plain file name.\<close>

definition path_join :: "string \<Rightarrow> string \<Rightarrow> string" where
  "path_join dir file = dir @ ''/'' @ file"

text \<open>
  The push and the eviction that both branches of \<^verbatim>\<open>takeScreenshot\<close> spell out, once
  for each queue. \<^verbatim>\<open>shift()\<close> of an empty array is \<^verbatim>\<open>undefined\<close>, and an undefined
  or empty \<^verbatim>\<open>removedPath\<close> is falsy: nothing is deleted then. A deletion that throws is
  caught and logged.
\<close>

definition push_bounded :: "error option \<Rightarrow> string \<Rightarrow> string list \<Rightarrow> string list \<times> effect list" where
  "push_bounded unlinkError screenshotPath q =
     (let pushed = q @ [screenshotPath] in
      if length pushed > MAX_SCREENSHOTS then
        (case pushed of
           [] \<Rightarrow> (pushed, [])
         | removedPath # rest \<Rightarrow>
             if removedPath \<noteq> [] then
               (rest, Unlink removedPath #
                        (case unlinkError of None \<Rightarrow> [] | Some e \<Rightarrow> [ConsoleError]))
             else (rest, []))
      else (pushed, []))"

text \<open>
  A capture that throws rejects the call at the \<^verbatim>\<open>await\<close>: nothing after it runs.
\<close>

definition takeScreenshot ::
  "capture_outcome \<Rightarrow> ScreenshotHelper \<Rightarrow> (error + string) \<times> ScreenshotHelper \<times> effect list" where
  "takeScreenshot ext h =
     (if view h = queue then
        (let screenshotPath = path_join (screenshotDir h) (uuid ext @ ''.png'') in
         case screenshot_error ext of
           Some e \<Rightarrow> (Inl e, h, [HideMainWindow, Screenshot screenshotPath])
         | None \<Rightarrow>
             (let (q, removal) = push_bounded (unlink_error ext) screenshotPath (screenshotQueue h)
              in (Inr screenshotPath, h\<lparr> screenshotQueue := q \<rparr>,
                  [HideMainWindow, Screenshot screenshotPath] @ removal @ [ShowMainWindow])))
      else
        (let screenshotPath = path_join (extraScreenshotDir h) (uuid ext @ ''.png'') in
         case screenshot_error ext of
           Some e \<Rightarrow> (Inl e, h, [HideMainWindow, Screenshot screenshotPath])
         | None \<Rightarrow>
             (let (q, removal) =
                    push_bounded (unlink_error ext) screenshotPath (extraScreenshotQueue h)
              in (Inr screenshotPath, h\<lparr> extraScreenshotQueue := q \<rparr>,
                  [HideMainWindow, Screenshot screenshotPath] @ removal @ [ShowMainWindow]))))"

text \<open>Sequences of calls on one helper: captures, with the view set in between.\<close>

datatype helper_call = TakeScreenshot capture_outcome | SetView view

fun perform :: "ScreenshotHelper \<Rightarrow> helper_call \<Rightarrow> ScreenshotHelper" where
  "perform h (TakeScreenshot ext) = fst (snd (takeScreenshot ext h))"
| "perform h (SetView v) = h\<lparr> view := v \<rparr>"

definition perform_all :: "ScreenshotHelper \<Rightarrow> helper_call list \<Rightarrow> ScreenshotHelper" where
  "perform_all h cs = foldl perform h cs"

section \<open>Numbers\<close>

text \<open>
  A JavaScript number is a double: a binary floating-point number with a significand of
  53 bits. Each arithmetic operation returns the double nearest to the exact result, a tie
  going to the one with the even significand. The model keeps the value of a double as a
  rational and rounds after each operation. Overflow and the subnormal range are not
  represented: the magnitudes that occur here lie far inside the normal range.

  \<open>binade x\<close> is the exponent \<open>e\<close> with \<open>2 ^ e \<le> x < 2 ^ (e + 1)\<close>, for positive \<open>x\<close>.
\<close>

definition binade :: "rat \<Rightarrow> int" where
  "binade x =
     (let d = bitlen (fst (quotient_of x)) - bitlen (snd (quotient_of x))
      in if 2 powi d \<le> x then d else d - 1)"

definition round_even :: "rat \<Rightarrow> int" where
  "round_even r =
     (let f = \<lfloor>r\<rfloor> in
      if r - of_int f < 1 / 2 then f
      else if 1 / 2 < r - of_int f then f + 1
      else if even f then f else f + 1)"

definition to_double :: "rat \<Rightarrow> rat" where
  "to_double x =
     (if x = 0 then 0
      else
        (let ulp = 2 powi (binade \<bar>x\<bar> - 52)
         in sgn x * of_int (round_even (\<bar>x\<bar> / ulp)) * ulp))"




section \<open>StorageHelper.ts: the daily statistics\<close>












section \<open>Notions used in the statements\<close>

subsection \<open>Segmentation\<close>

text \<open>The closed time intervals, in milliseconds, that a session and a gap span.\<close>

definition session_interval :: "WorkSession \<Rightarrow> int set" where
  "session_interval s = {WorkSession.startTime s .. WorkSession.endTime s}"

definition gap_interval :: "TimeGap \<Rightarrow> int set" where
  "gap_interval g = {TimeGap.startTime g .. TimeGap.endTime g}"

text \<open>
  A record list is chronological when every timestamp is a valid date and the times
  ascend. Its span runs from the time of the first record to the time of the last.
\<close>

definition chronological :: "date_parser \<Rightarrow> ActivityRecord list \<Rightarrow> bool" where
  "chronological parse as \<longleftrightarrow>
     list_all (\<lambda>a. time_of parse a \<noteq> None) as \<and> sorted (map (the \<circ> time_of parse) as)"

definition span :: "date_parser \<Rightarrow> ActivityRecord list \<Rightarrow> int set" where
  "span parse as =
     (if as = [] then {}
      else {the (time_of parse (hd as)) .. the (time_of parse (last as))})"

text \<open>The loop invariant of the segmentation on a chronological list.\<close>

definition covered :: "WorkSession list \<Rightarrow> TimeGap list \<Rightarrow> int set" where
  "covered ss gs = (\<Union>s\<in>set ss. session_interval s) \<union> (\<Union>g\<in>set gs. gap_interval g)"

definition before :: "WorkSession \<Rightarrow> WorkSession \<Rightarrow> bool" where
  "before a b \<longleftrightarrow> WorkSession.endTime a < WorkSession.startTime b"

definition seg_inv :: "int \<Rightarrow> int \<Rightarrow> loop_state \<Rightarrow> bool" where
  "seg_inv t0 te st \<longleftrightarrow>
     (\<exists>cur. currentSession st = Some cur \<and> WorkSession.endTime cur = te \<and>
        t0 \<le> WorkSession.startTime cur \<and> WorkSession.startTime cur \<le> te \<and>
        covered (sessions st) (gaps st) \<union> {WorkSession.startTime cur .. te} = {t0 .. te} \<and>
        (\<forall>s\<in>set (sessions st). before s cur) \<and>
        sorted_wrt before (sessions st))"

definition gap_between :: "int \<Rightarrow> int \<Rightarrow> TimeGap" where
  "gap_between tp t =
     \<lparr> TimeGap.startTime = tp, TimeGap.endTime = t,
       TimeGap.durationMinutes = round_minutes (t - tp),
       reason = (if round_minutes (t - tp) > 60 then app_closed else away_from_computer) \<rparr>"

text \<open>
  What holds of every emitted gap, and what it means for two records to stay next to each
  other in one session.
\<close>

definition gap_ok :: "TimeGap \<Rightarrow> bool" where
  "gap_ok g \<longleftrightarrow>
     TimeGap.durationMinutes g > 5 \<and>
     TimeGap.durationMinutes g = round_minutes (TimeGap.endTime g - TimeGap.startTime g) \<and>
     reason g = (if TimeGap.durationMinutes g > 60 then app_closed else away_from_computer)"

definition adjacent_in :: "ActivityRecord \<Rightarrow> ActivityRecord \<Rightarrow> WorkSession \<Rightarrow> bool" where
  "adjacent_in a b s \<longleftrightarrow> (\<exists>us vs. activities s = us @ [a, b] @ vs)"

definition pair_kept :: "ActivityRecord \<Rightarrow> ActivityRecord \<Rightarrow> loop_state \<Rightarrow> bool" where
  "pair_kept a b st \<longleftrightarrow>
     (\<exists>s. (s \<in> set (sessions st) \<or> currentSession st = Some s) \<and> adjacent_in a b s)"

subsection \<open>Calls to the language model\<close>

text \<open>
  Counting requests from \<open>n\<close>, the service answers the \<open>k\<close>-th one after refusing all
  before it. A reply is rejected when its text cannot be read, is not cleaned to a braced
  text, does not parse, or does not validate.
\<close>

definition answered_at :: "service \<Rightarrow> nat \<Rightarrow> nat \<Rightarrow> response \<Rightarrow> bool" where
  "answered_at svc n k result \<longleftrightarrow> (\<forall>i<k. isl (svc (n + i))) \<and> svc (n + k) = Inr result"

definition reply_rejected :: "platform \<Rightarrow> response \<Rightarrow> bool" where
  "reply_rejected p result \<longleftrightarrow>
     (case response_text result of
        Inl e \<Rightarrow> True
      | Inr raw \<Rightarrow>
          (case cleanJsonResponse raw of
             Inl e \<Rightarrow> True
           | Inr text \<Rightarrow>
               (case json_parse p text of
                  Inl e \<Rightarrow> True
                | Inr parsed \<Rightarrow> validateActivityRecord parsed \<noteq> Inr True)))"

subsection \<open>Sample data\<close>

text \<open>
  A date parser that knows the timestamps of one morning, with their true time values,
  and records stamped with them.
\<close>

definition sample_clock :: date_parser where
  "sample_clock = map_of
     [(''2024-03-01T09:00:00Z'', 1709283600000),
      (''2024-03-01T09:02:00Z'', 1709283720000),
      (''2024-03-01T09:04:00Z'', 1709283840000),
      (''2024-03-01T09:05:00Z'', 1709283900000),
      (''2024-03-01T09:06:00Z'', 1709283960000),
      (''2024-03-01T09:08:00Z'', 1709284080000),
      (''2024-03-01T09:20:00Z'', 1709284800000),
      (''2024-03-01T10:00:00Z'', 1709287200000),
      (''2024-03-01T10:01:00Z'', 1709287260000),
      (''2024-03-01T10:20:00Z'', 1709288400000),
      (''2024-03-01T11:21:00Z'', 1709292060000)]"

definition sample_record :: "string \<Rightarrow> string \<Rightarrow> ActivityRecord" where
  "sample_record state stamp =
     \<lparr> app_classification = ''VS Code - main.ts'', goal_relevance = ''goal_related'',
       cognitive_state = state, context_switching = ''continuing_task'',
       attention_residue = ''clean_focus'', procrastination_signal = ''none'',
       energy_level = ''high_focus_work'', created_at = Some stamp \<rparr>"

text \<open>
  Records five minutes, then sixty minutes, then sixty-one minutes apart.
\<close>

definition boundary_clock :: date_parser where
  "boundary_clock = map_of
     [(''2024-03-01T09:00:00Z'', 1709283600000),
      (''2024-03-01T09:05:00Z'', 1709283900000),
      (''2024-03-01T10:05:00Z'', 1709287500000),
      (''2024-03-01T11:06:00Z'', 1709291160000)]"

definition boundary_day :: "ActivityRecord list" where
  "boundary_day = map (sample_record ''light_work'')
     [''2024-03-01T09:00:00Z'', ''2024-03-01T09:05:00Z'', ''2024-03-01T10:05:00Z'',
      ''2024-03-01T11:06:00Z'']"

definition sample_day :: "ActivityRecord list" where
  "sample_day = map (sample_record ''deep_focus'')
     [''2024-03-01T09:00:00Z'', ''2024-03-01T09:02:00Z'', ''2024-03-01T09:04:00Z'',
      ''2024-03-01T09:06:00Z'', ''2024-03-01T09:08:00Z'', ''2024-03-01T09:20:00Z'']"

text \<open>
  A platform with one readable image file, a parser that knows the two replies of the
  examples, and a service that refuses the first \<open>n\<close> requests and then answers with a
  given text.
\<close>

definition sample_reply_text :: string where
  "sample_reply_text =
     ''{\"app_classification\":\"VS Code - main.ts\",\"goal_relevance\":\"goal_related\",'' @
     ''\"cognitive_state\":\"deep_focus\",\"context_switching\":\"continuing_task\",'' @
     ''\"attention_residue\":\"clean_focus\",\"procrastination_signal\":\"none\",'' @
     ''\"energy_level\":\"high_focus_work\"}''"

definition sample_classification :: json_object where
  "sample_classification =
     [(''app_classification'', JString ''VS Code - main.ts''),
      (''goal_relevance'', JString ''goal_related''),
      (''cognitive_state'', JString ''deep_focus''),
      (''context_switching'', JString ''continuing_task''),
      (''attention_residue'', JString ''clean_focus''),
      (''procrastination_signal'', JString ''none''),
      (''energy_level'', JString ''high_focus_work'')]"

definition sample_insights_text :: string where
  "sample_insights_text =
     ''{\"executiveSummary\":\"Two sessions.\",\"productivityNarrative\":\"Work began at 09:00.\",'' @
     ''\"behavioralPatterns\":\"Steady focus.\",\"recommendations\":\"Keep the morning block.\"}''"

definition sample_insights_object :: json_object where
  "sample_insights_object =
     [(''executiveSummary'', JString ''Two sessions.''),
      (''productivityNarrative'', JString ''Work began at 09:00.''),
      (''behavioralPatterns'', JString ''Steady focus.''),
      (''recommendations'', JString ''Keep the morning block.'')]"

text \<open>A reply that parses and holds one of the seven required fields only.\<close>

definition partial_reply_text :: string where
  "partial_reply_text = ''{\"app_classification\":\"VS Code - main.ts\"}''"

definition partial_classification :: json_object where
  "partial_classification = [(''app_classification'', JString ''VS Code - main.ts'')]"

definition sample_json_parse :: json_parser where
  "sample_json_parse text =
     (if text = sample_reply_text then Inr sample_classification
      else if text = sample_insights_text then Inr sample_insights_object
      else if text = partial_reply_text then Inr partial_classification
      else Inl (Error ''Unexpected token in JSON''))"

definition outage :: "nat \<Rightarrow> string \<Rightarrow> service" where
  "outage n text k =
     (if k < n then Inl (Error (''network error on request '' @ string_of_nat k))
      else Inr (Text text))"

definition sample_platform :: "service \<Rightarrow> platform" where
  "sample_platform svc =
     \<lparr> readFile = (\<lambda>path. if path = ''shot.png'' then Inr ''PNG''
                          else Inl (Error ''ENOENT: no such file or directory'')),
       model = svc,
       json_parse = sample_json_parse,
       date_parse = sample_clock,
       now_iso = ''2024-03-01T18:00:00.000Z'' \<rparr>"

definition fresh_world :: llm_world where
  "fresh_world = \<lparr> calls = 0, sleeps = [] \<rparr>"


text \<open>A helper whose primary queue is full, and the outside's part in a sixth capture.\<close>

definition sample_helper :: ScreenshotHelper where
  "sample_helper =
     \<lparr> screenshotQueue =
         [''/u/screenshots/1.png'', ''/u/screenshots/2.png'', ''/u/screenshots/3.png'',
          ''/u/screenshots/4.png'', ''/u/screenshots/5.png''],
       extraScreenshotQueue = [],
       screenshotDir = ''/u/screenshots'',
       extraScreenshotDir = ''/u/extra_screenshots'',
       view = queue \<rparr>"

definition sixth_capture :: capture_outcome where
  "sixth_capture = \<lparr> uuid = ''6'', screenshot_error = None, unlink_error = None \<rparr>"

definition failing_capture :: capture_outcome where
  "failing_capture =
     \<lparr> uuid = ''6'', screenshot_error = Some (Error ''screen capture failed''),
       unlink_error = None \<rparr>"





section \<open>Session segmentation: proofs\<close>

lemma foldl_invariant:
  assumes "Q s" and "\<And>s x. x \<in> set xs \<Longrightarrow> Q s \<Longrightarrow> Q (f s x)"
  shows "Q (foldl f s xs)"
  using assms by (induction xs arbitrary: s) auto

lemma round_minutes_gt5: "round_minutes d > 5 \<longleftrightarrow> d \<ge> 330000"
proof -
  define x where "x = d + 30000"
  have e: "x = 60000 * (x div 60000) + x mod 60000" by simp
  have r: "0 \<le> x mod 60000" "x mod 60000 < 60000" by simp_all
  have "x div 60000 > 5 \<longleftrightarrow> x \<ge> 360000" using e r by linarith
  then show ?thesis by (simp add: round_minutes_def x_def)
qed

lemma seg_inv_first:
  assumes "time_of parse (ys ! 0) = Some t0"
  shows "seg_inv t0 t0 (loop_body parse ys initial_loop_state 0)"
  using assms
  by (simp add: seg_inv_def loop_body_def check_gap_def start_or_extend_def
      initial_loop_state_def covered_def Let_def)

lemma covered_snoc:
  "covered (ss @ [s]) (gs @ [g]) = covered ss gs \<union> session_interval s \<union> gap_interval g"
  by (auto simp: covered_def)


lemma start_or_extend_sessions [simp]: "sessions (start_or_extend a t st) = sessions st"
  by (simp add: start_or_extend_def Let_def split: option.splits)

lemma start_or_extend_gaps [simp]: "gaps (start_or_extend a t st) = gaps st"
  by (simp add: start_or_extend_def Let_def split: option.splits)

lemma start_or_extend_None:
  assumes "currentSession st = None"
  shows "\<exists>c. currentSession (start_or_extend a t st) = Some c \<and>
           WorkSession.startTime c = t \<and> WorkSession.endTime c = t \<and> activities c = [a]"
  using assms by (simp add: start_or_extend_def Let_def)

lemma start_or_extend_Some:
  assumes "currentSession st = Some cur"
  shows "\<exists>c. currentSession (start_or_extend a t st) = Some c \<and>
           WorkSession.startTime c = WorkSession.startTime cur \<and>
           WorkSession.endTime c = t \<and> activities c = activities cur @ [a]"
  using assms by (simp add: start_or_extend_def Let_def)

lemma check_gap_split:
  assumes "i > 0" "currentSession st = Some cur" "time_of parse (ys ! (i - 1)) = Some tp"
    "round_minutes (t - tp) > 5"
  shows "check_gap parse ys i t st =
           st\<lparr> sessions := sessions st @ [cur\<lparr> isComplete := True \<rparr>],
               gaps := gaps st @ [gap_between tp t], currentSession := None \<rparr>"
  using assms by (simp add: check_gap_def Let_def MIN_GAP_MINUTES_def gap_between_def)

lemma check_gap_keep:
  assumes "i > 0" "currentSession st = Some cur" "time_of parse (ys ! (i - 1)) = Some tp"
    "\<not> round_minutes (t - tp) > 5"
  shows "check_gap parse ys i t st = st"
  using assms by (simp add: check_gap_def Let_def MIN_GAP_MINUTES_def)

lemma loop_body_valid:
  "time_of parse (ys ! i) = Some t \<Longrightarrow>
   loop_body parse ys st i = start_or_extend (ys ! i) t (check_gap parse ys i t st)"
  by (simp add: loop_body_def Let_def)

lemma seg_inv_step:
  assumes inv: "seg_inv t0 tp st" and i: "i > 0"
    and prev: "time_of parse (ys ! (i - 1)) = Some tp"
    and now: "time_of parse (ys ! i) = Some t" and le: "tp \<le> t"
  shows "seg_inv t0 t (loop_body parse ys st i)"
proof -
  from inv obtain cur where cur: "currentSession st = Some cur"
    and e: "WorkSession.endTime cur = tp"
    and s0: "t0 \<le> WorkSession.startTime cur" and s1: "WorkSession.startTime cur \<le> tp"
    and cov: "covered (sessions st) (gaps st) \<union> {WorkSession.startTime cur .. tp} = {t0 .. tp}"
    and bef: "\<forall>s\<in>set (sessions st). before s cur"
    and chain: "sorted_wrt before (sessions st)"
    unfolding seg_inv_def by blast
  let ?st' = "loop_body parse ys st i"
  have body: "?st' = start_or_extend (ys ! i) t (check_gap parse ys i t st)"
    by (rule loop_body_valid [OF now])
  show ?thesis
  proof (cases "round_minutes (t - tp) > 5")
    case True
    then have far: "tp < t" by (simp add: round_minutes_gt5)
    let ?c = "cur\<lparr> isComplete := True \<rparr>"
    define g where "g = gap_between tp t"
    have cg: "check_gap parse ys i t st =
             st\<lparr> sessions := sessions st @ [?c], gaps := gaps st @ [g], currentSession := None \<rparr>"
      unfolding g_def by (rule check_gap_split [OF i cur prev True])
    have g: "TimeGap.startTime g = tp" "TimeGap.endTime g = t"
      by (simp_all add: g_def gap_between_def)
    have none: "currentSession (check_gap parse ys i t st) = None" by (simp add: cg)
    from start_or_extend_None [OF none, of "ys ! i" t] obtain c where
      c: "currentSession ?st' = Some c" "WorkSession.startTime c = t" "WorkSession.endTime c = t"
      by (auto simp: body)
    have ss: "sessions ?st' = sessions st @ [?c]" and gs: "gaps ?st' = gaps st @ [g]"
      by (simp_all add: body cg)
    have "covered (sessions st @ [?c]) (gaps st @ [g])
            = (covered (sessions st) (gaps st) \<union> {WorkSession.startTime cur .. tp}) \<union> {tp .. t}"
      by (simp add: covered_snoc session_interval_def gap_interval_def e g Un_assoc)
    also have "\<dots> = {t0 .. tp} \<union> {tp .. t}" by (simp only: cov)
    also have "\<dots> = {t0 .. t}" using s0 s1 le by auto
    finally have cov': "covered (sessions ?st') (gaps ?st') = {t0 .. t}" by (simp only: ss gs)
    have cov'': "covered (sessions ?st') (gaps ?st') \<union> {WorkSession.startTime c .. t} = {t0 .. t}"
      using s0 s1 le by (simp only: cov' c) auto
    have bef': "\<forall>s\<in>set (sessions ?st'). before s c"
      using bef s1 e far by (auto simp: before_def ss c)
    have chain': "sorted_wrt before (sessions ?st')"
      using chain bef by (auto simp: sorted_wrt_append before_def ss)
    have "t0 \<le> WorkSession.startTime c" "WorkSession.startTime c \<le> t"
      using s0 s1 le by (simp_all add: c)
    with c cov'' bef' chain' show ?thesis unfolding seg_inv_def by blast
  next
    case False
    have cg: "check_gap parse ys i t st = st"
      by (rule check_gap_keep [OF i cur prev False])
    from start_or_extend_Some [OF cur, of "ys ! i" t] obtain c where
      c: "currentSession ?st' = Some c" "WorkSession.startTime c = WorkSession.startTime cur"
         "WorkSession.endTime c = t"
      by (auto simp: body cg)
    have ss: "sessions ?st' = sessions st" and gs: "gaps ?st' = gaps st"
      by (simp_all add: body cg)
    have "{WorkSession.startTime cur .. t} = {WorkSession.startTime cur .. tp} \<union> {tp .. t}"
      using s1 le by auto
    then have "covered (sessions st) (gaps st) \<union> {WorkSession.startTime cur .. t}
                 = (covered (sessions st) (gaps st) \<union> {WorkSession.startTime cur .. tp}) \<union> {tp .. t}"
      by (simp only: Un_assoc)
    also have "\<dots> = {t0 .. tp} \<union> {tp .. t}" by (simp only: cov)
    also have "\<dots> = {t0 .. t}" using s0 s1 le by auto
    finally have cov'': "covered (sessions ?st') (gaps ?st') \<union> {WorkSession.startTime c .. t} = {t0 .. t}"
      by (simp only: ss gs c)
    have bef': "\<forall>s\<in>set (sessions ?st'). before s c"
      using bef by (simp add: before_def ss c)
    have chain': "sorted_wrt before (sessions ?st')"
      using chain by (simp add: ss)
    have "t0 \<le> WorkSession.startTime c" "WorkSession.startTime c \<le> t"
      using s0 s1 le by (simp_all add: c)
    with c cov'' bef' chain' show ?thesis unfolding seg_inv_def by blast
  qed
qed


lemma insert_by_time_head:
  assumes "chronological parse (a # as)"
  shows "insert_by_time parse a as = a # as"
proof (cases as)
  case Nil
  then show ?thesis by simp
next
  case (Cons b bs)
  with assms have "\<not> sorts_after parse a b"
    by (auto simp: chronological_def sorts_after_def compare_times_def)
  with Cons show ?thesis by simp
qed

lemma chronological_tail: "chronological parse (a # as) \<Longrightarrow> chronological parse as"
  by (simp add: chronological_def)

lemma sort_by_time_chronological:
  "chronological parse as \<Longrightarrow> sort_by_time parse as = as"
proof (induction as)
  case Nil
  then show ?case by (simp add: sort_by_time_def)
next
  case (Cons a as)
  from Cons.IH [OF chronological_tail [OF Cons.prems]]
  have "sort_by_time parse (a # as) = insert_by_time parse a as"
    by (simp add: sort_by_time_def)
  then show ?case by (simp add: insert_by_time_head [OF Cons.prems])
qed

lemma chronological_time:
  assumes "chronological parse ys" "i < length ys"
  shows "time_of parse (ys ! i) = Some (the (time_of parse (ys ! i)))"
  using assms by (auto simp: chronological_def list_all_length)

lemma chronological_mono:
  assumes "chronological parse ys" "i \<le> j" "j < length ys"
  shows "the (time_of parse (ys ! i)) \<le> the (time_of parse (ys ! j))"
proof -
  from assms have "map (the \<circ> time_of parse) ys ! i \<le> map (the \<circ> time_of parse) ys ! j"
    by (intro sorted_nth_mono) (simp_all add: chronological_def)
  with assms show ?thesis by simp
qed

lemma seg_inv_prefix:
  assumes chr: "chronological parse ys" and i: "i < length ys"
  shows "seg_inv (the (time_of parse (ys ! 0))) (the (time_of parse (ys ! i)))
           (foldl (loop_body parse ys) initial_loop_state [0..<Suc i])"
  using i
proof (induction i)
  case 0
  have "time_of parse (ys ! 0) = Some (the (time_of parse (ys ! 0)))"
    by (rule chronological_time [OF chr 0])
  from seg_inv_first [OF this] show ?case by simp
next
  case (Suc i)
  then have i: "i < length ys" by simp
  have prev: "time_of parse (ys ! (Suc i - 1)) = Some (the (time_of parse (ys ! i)))"
    using chronological_time [OF chr i] by simp
  have now: "time_of parse (ys ! Suc i) = Some (the (time_of parse (ys ! Suc i)))"
    by (rule chronological_time [OF chr Suc.prems])
  have le: "the (time_of parse (ys ! i)) \<le> the (time_of parse (ys ! Suc i))"
    by (rule chronological_mono [OF chr _ Suc.prems]) simp
  have "foldl (loop_body parse ys) initial_loop_state [0..<Suc (Suc i)]
        = loop_body parse ys (foldl (loop_body parse ys) initial_loop_state [0..<Suc i]) (Suc i)"
    by simp
  with seg_inv_step [OF Suc.IH [OF i] _ prev now le] show ?case by simp
qed

lemma seg_inv_run_loop:
  assumes chr: "chronological parse ys" and ne: "ys \<noteq> []"
  shows "seg_inv (the (time_of parse (hd ys))) (the (time_of parse (last ys))) (run_loop parse ys)"
proof -
  from ne obtain n where n: "length ys = Suc n" by (cases ys) auto
  then have "n < length ys" by simp
  from seg_inv_prefix [OF chr this] n ne show ?thesis
    by (simp add: run_loop_def hd_conv_nth last_conv_nth)
qed

lemma sorted_wrt_before_disjoint:
  assumes "sorted_wrt before ss" "i < j" "j < length ss"
  shows "session_interval (ss ! i) \<inter> session_interval (ss ! j) = {}"
proof -
  from assms have "before (ss ! i) (ss ! j)" by (simp add: sorted_wrt_iff_nth_less)
  then show ?thesis by (auto simp: before_def session_interval_def)
qed

text \<open>
  Claim C1. For a chronological record list, the sessions \<open>analyzeWorkSessions\<close> produces
  are pairwise disjoint in time, and the sessions' intervals together with the gaps'
  intervals cover exactly the span from the first record's time to the last record's time.
\<close>

theorem segmentation_partitions_span:
  assumes "chronological parse as"
  shows "(\<forall>i j. i < j \<and> j < length (SessionAnalysis.sessions (analyzeWorkSessions parse as)) \<longrightarrow>
            session_interval (SessionAnalysis.sessions (analyzeWorkSessions parse as) ! i) \<inter>
            session_interval (SessionAnalysis.sessions (analyzeWorkSessions parse as) ! j) = {}) \<and>
         (\<Union>s\<in>set (SessionAnalysis.sessions (analyzeWorkSessions parse as)). session_interval s) \<union>
         (\<Union>g\<in>set (SessionAnalysis.gaps (analyzeWorkSessions parse as)). gap_interval g)
           = span parse as"
proof (cases "as = []")
  case True
  then show ?thesis by (simp add: analyzeWorkSessions_def span_def)
next
  case False
  define st where "st = run_loop parse as"
  from seg_inv_run_loop [OF assms False]
  obtain cur where cur: "currentSession st = Some cur"
    and e: "WorkSession.endTime cur = the (time_of parse (last as))"
    and cov: "covered (sessions st) (gaps st) \<union>
                {WorkSession.startTime cur .. the (time_of parse (last as))}
              = {the (time_of parse (hd as)) .. the (time_of parse (last as))}"
    and bef: "\<forall>s\<in>set (sessions st). before s cur"
    and chain: "sorted_wrt before (sessions st)"
    unfolding seg_inv_def st_def by blast
  let ?c = "cur\<lparr> isComplete := False \<rparr>"
  have ss: "SessionAnalysis.sessions (analyzeWorkSessions parse as) = sessions st @ [?c]"
    and gs: "SessionAnalysis.gaps (analyzeWorkSessions parse as) = gaps st"
    using False cur
    by (simp_all add: analyzeWorkSessions_def Let_def close_last_def st_def
        sort_by_time_chronological [OF assms])
  have chain': "sorted_wrt before (sessions st @ [?c])"
    using chain bef by (auto simp: sorted_wrt_append before_def)
  have disj: "\<forall>i j. i < j \<and> j < length (sessions st @ [?c]) \<longrightarrow>
      session_interval ((sessions st @ [?c]) ! i) \<inter> session_interval ((sessions st @ [?c]) ! j) = {}"
    using sorted_wrt_before_disjoint [OF chain'] by blast
  have "(\<Union>s\<in>set (sessions st @ [?c]). session_interval s) \<union> (\<Union>g\<in>set (gaps st). gap_interval g)
        = covered (sessions st) (gaps st) \<union> {WorkSession.startTime cur .. the (time_of parse (last as))}"
    by (auto simp: covered_def session_interval_def e)
  also have "\<dots> = span parse as" using False by (simp only: cov span_def if_False)
  finally show ?thesis using disj by (simp only: ss gs)
qed


theorem segmentation_partitions_span_witness:
  "chronological sample_clock sample_day \<and>
   span sample_clock sample_day = {1709283600000 .. 1709284800000} \<and>
   length (SessionAnalysis.sessions (analyzeWorkSessions sample_clock sample_day)) = 2 \<and>
   session_interval (SessionAnalysis.sessions (analyzeWorkSessions sample_clock sample_day) ! 0) \<inter>
   session_interval (SessionAnalysis.sessions (analyzeWorkSessions sample_clock sample_day) ! 1) = {} \<and>
   (\<Union>s\<in>set (SessionAnalysis.sessions (analyzeWorkSessions sample_clock sample_day)). session_interval s) \<union>
   (\<Union>g\<in>set (SessionAnalysis.gaps (analyzeWorkSessions sample_clock sample_day)). gap_interval g)
     = {1709283600000 .. 1709284800000}"
proof -
  have chr: "chronological sample_clock sample_day"
    by (simp add: chronological_def sample_day_def sample_record_def time_of_def sample_clock_def)
  have sp: "span sample_clock sample_day = {1709283600000 .. 1709284800000}"
    by (simp add: span_def sample_day_def sample_record_def time_of_def sample_clock_def)
  have len: "length (SessionAnalysis.sessions (analyzeWorkSessions sample_clock sample_day)) = 2"
    by code_simp
  note part = segmentation_partitions_span [OF chr]
  from part len
  have "session_interval (SessionAnalysis.sessions (analyzeWorkSessions sample_clock sample_day) ! 0) \<inter>
        session_interval (SessionAnalysis.sessions (analyzeWorkSessions sample_clock sample_day) ! 1) = {}"
    by simp
  with part chr sp len show ?thesis by simp
qed

lemma check_gap_gaps_ok:
  "list_all gap_ok (gaps st) \<Longrightarrow> list_all gap_ok (gaps (check_gap parse ys i t st))"
  by (simp add: check_gap_def Let_def gap_ok_def MIN_GAP_MINUTES_def split: option.splits)

lemma loop_body_gaps_ok:
  "list_all gap_ok (gaps st) \<Longrightarrow> list_all gap_ok (gaps (loop_body parse ys st i))"
  by (simp add: loop_body_def Let_def check_gap_gaps_ok split: option.splits)

lemma run_loop_gaps_ok: "list_all gap_ok (gaps (run_loop parse ys))"
  unfolding run_loop_def
  by (rule foldl_invariant) (simp_all add: initial_loop_state_def loop_body_gaps_ok)

lemma analyze_gaps_ok: "list_all gap_ok (SessionAnalysis.gaps (analyzeWorkSessions parse as))"
  by (simp add: analyzeWorkSessions_def Let_def run_loop_gaps_ok)

lemma gap_ok_span: "gap_ok g \<Longrightarrow> TimeGap.endTime g - TimeGap.startTime g \<ge> 330000"
  using round_minutes_gt5 [of "TimeGap.endTime g - TimeGap.startTime g"]
  by (simp add: gap_ok_def)

lemma check_gap_cases:
  "check_gap parse ys i t st = st \<or>
   (\<exists>cur g. currentSession st = Some cur \<and>
      check_gap parse ys i t st =
        st\<lparr> sessions := sessions st @ [cur\<lparr> isComplete := True \<rparr>],
            gaps := gaps st @ [g], currentSession := None \<rparr>)"
proof (cases "check_gap parse ys i t st = st")
  case True
  then show ?thesis by simp
next
  case False
  then obtain cur tp where c: "i > 0" "currentSession st = Some cur"
    "time_of parse (ys ! (i - 1)) = Some tp" "round_minutes (t - tp) > 5"
    by (auto simp: check_gap_def Let_def MIN_GAP_MINUTES_def split: option.splits if_splits)
  from check_gap_split [OF this] c(2) show ?thesis by blast
qed

lemma adjacent_in_complete [simp]: "adjacent_in a b (s\<lparr> isComplete := c \<rparr>) = adjacent_in a b s"
  by (simp add: adjacent_in_def)

lemma check_gap_pair_kept:
  assumes "pair_kept a b st"
  shows "pair_kept a b (check_gap parse ys i t st)"
proof -
  from check_gap_cases [of parse ys i t st] show ?thesis
  proof
    assume "check_gap parse ys i t st = st"
    with assms show ?thesis by simp
  next
    assume "\<exists>cur g. currentSession st = Some cur \<and>
      check_gap parse ys i t st =
        st\<lparr> sessions := sessions st @ [cur\<lparr> isComplete := True \<rparr>],
            gaps := gaps st @ [g], currentSession := None \<rparr>"
    then obtain cur g where cur: "currentSession st = Some cur"
      and eq: "check_gap parse ys i t st =
        st\<lparr> sessions := sessions st @ [cur\<lparr> isComplete := True \<rparr>],
            gaps := gaps st @ [g], currentSession := None \<rparr>" by blast
    from assms obtain s where s: "s \<in> set (sessions st) \<or> s = cur" "adjacent_in a b s"
      unfolding pair_kept_def using cur by auto
    then have "\<exists>s'. s' \<in> set (sessions st @ [cur\<lparr> isComplete := True \<rparr>]) \<and> adjacent_in a b s'"
      by auto
    then show ?thesis unfolding pair_kept_def eq by auto
  qed
qed

lemma start_or_extend_current:
  "\<exists>c. currentSession (start_or_extend x t st) = Some c \<and>
       (case currentSession st of None \<Rightarrow> activities c = [x]
        | Some cur \<Rightarrow> activities c = activities cur @ [x])"
  by (simp add: start_or_extend_def Let_def split: option.splits)

lemma start_or_extend_pair_kept:
  assumes "pair_kept a b st"
  shows "pair_kept a b (start_or_extend x t st)"
proof -
  from assms obtain s where s: "s \<in> set (sessions st) \<or> currentSession st = Some s"
    and adj: "adjacent_in a b s" unfolding pair_kept_def by blast
  from s show ?thesis
  proof
    assume "s \<in> set (sessions st)"
    with adj show ?thesis unfolding pair_kept_def by auto
  next
    assume cur: "currentSession st = Some s"
    from start_or_extend_current [of x t st] cur obtain c where
      c: "currentSession (start_or_extend x t st) = Some c" "activities c = activities s @ [x]"
      by auto
    from adj obtain us vs where "activities s = us @ [a, b] @ vs" unfolding adjacent_in_def by blast
    then have "activities c = us @ [a, b] @ (vs @ [x])" using c by simp
    then have "adjacent_in a b c" unfolding adjacent_in_def by blast
    with c show ?thesis unfolding pair_kept_def by blast
  qed
qed

lemma loop_body_pair_kept:
  assumes "pair_kept a b st"
  shows "pair_kept a b (loop_body parse ys st j)"
proof (cases "time_of parse (ys ! j)")
  case None
  with assms show ?thesis by (simp add: loop_body_def Let_def pair_kept_def)
next
  case (Some t)
  show ?thesis
    unfolding loop_body_valid [OF Some]
    by (intro start_or_extend_pair_kept check_gap_pair_kept assms)
qed

lemma loop_body_last:
  assumes "time_of parse (ys ! i) = Some t"
  shows "\<exists>c us. currentSession (loop_body parse ys st i) = Some c \<and> activities c = us @ [ys ! i]"
proof -
  from start_or_extend_current [of "ys ! i" t "check_gap parse ys i t st"]
  show ?thesis unfolding loop_body_valid [OF assms]
    by (cases "currentSession (check_gap parse ys i t st)") auto
qed

lemma round_minutes_le5: "d \<le> 300000 \<Longrightarrow> \<not> round_minutes d > 5"
  by (simp add: round_minutes_gt5)

lemma loop_body_joins:
  assumes cur: "currentSession st = Some c" and acts: "activities c = us @ [ys ! i]"
    and ti: "time_of parse (ys ! i) = Some t" and tj: "time_of parse (ys ! Suc i) = Some t'"
    and near: "t' - t \<le> 300000"
  shows "pair_kept (ys ! i) (ys ! Suc i) (loop_body parse ys st (Suc i))"
proof -
  have prev: "time_of parse (ys ! (Suc i - 1)) = Some t" using ti by simp
  have keep: "check_gap parse ys (Suc i) t' st = st"
    by (rule check_gap_keep [OF _ cur prev round_minutes_le5 [OF near]]) simp
  from start_or_extend_Some [OF cur, of "ys ! Suc i" t'] obtain c' where
    c': "currentSession (start_or_extend (ys ! Suc i) t' st) = Some c'"
        "activities c' = activities c @ [ys ! Suc i]" by blast
  then have "activities c' = us @ [ys ! i, ys ! Suc i] @ []" using acts by simp
  then have "adjacent_in (ys ! i) (ys ! Suc i) c'" unfolding adjacent_in_def by blast
  with c' show ?thesis
    unfolding loop_body_valid [OF tj] keep pair_kept_def by blast
qed

lemma run_loop_joins:
  assumes i: "Suc i < length ys"
    and ti: "time_of parse (ys ! i) = Some t" and tj: "time_of parse (ys ! Suc i) = Some t'"
    and near: "t' - t \<le> 300000"
  shows "pair_kept (ys ! i) (ys ! Suc i) (run_loop parse ys)"
proof -
  let ?f = "loop_body parse ys"
  have split: "[0..<length ys] = [0..<i] @ [i, Suc i] @ [Suc (Suc i)..<length ys]"
  proof -
    from i obtain k where k: "length ys = i + k" "Suc 0 < k"
      by (metis Suc_lessD less_imp_add_positive add_Suc_right less_add_same_cancel1 Suc_less_eq
          add.commute not_less_eq less_Suc0 add_0 add_cancel_right_right)
    have "[0..<i + k] = [0..<i] @ [i..<i + k]" by (rule upt_add_eq_append) simp
    moreover have "[i..<i + k] = i # Suc i # [Suc (Suc i)..<i + k]"
      using k by (simp add: upt_conv_Cons)
    ultimately show ?thesis using k by simp
  qed
  define s0 where "s0 = foldl ?f initial_loop_state [0..<i]"
  from loop_body_last [OF ti, of s0] obtain c us where
    c: "currentSession (?f s0 i) = Some c" "activities c = us @ [ys ! i]" by blast
  have "pair_kept (ys ! i) (ys ! Suc i) (?f (?f s0 i) (Suc i))"
    by (rule loop_body_joins [OF c ti tj near])
  then have "pair_kept (ys ! i) (ys ! Suc i)
               (foldl ?f (?f (?f s0 i) (Suc i)) [Suc (Suc i)..<length ys])"
    by (rule foldl_invariant) (rule loop_body_pair_kept)
  then show ?thesis
    unfolding run_loop_def by (subst split) (simp add: s0_def)
qed

lemma close_last_pair_kept:
  "pair_kept a b st \<Longrightarrow> \<exists>s\<in>set (close_last st). adjacent_in a b s"
  unfolding pair_kept_def close_last_def
  by (cases "currentSession st") auto

lemma sort_by_time_Nil: "sort_by_time parse [] = []"
  by (simp add: sort_by_time_def)

text \<open>
  Claim C2. Every gap \<open>analyzeWorkSessions\<close> emits has a duration above 5 minutes and
  spans more than 5 minutes of time; one of exactly 60 minutes is classified
  \<open>away_from_computer\<close> and one of 61 minutes \<open>app_closed\<close>. Two records that follow one
  another in the sorted order no more than 5 minutes apart, in particular exactly
  5 minutes apart, stay next to each other in one session: a session is split only
  where the gap exceeds 5 minutes.
\<close>

theorem gap_threshold_and_classification:
  "(\<forall>g\<in>set (SessionAnalysis.gaps (analyzeWorkSessions parse as)).
      TimeGap.durationMinutes g > 5 \<and>
      300000 < TimeGap.endTime g - TimeGap.startTime g \<and>
      (TimeGap.durationMinutes g = 60 \<longrightarrow> reason g = away_from_computer) \<and>
      (TimeGap.durationMinutes g = 61 \<longrightarrow> reason g = app_closed)) \<and>
   (\<forall>i t t'. Suc i < length (sort_by_time parse as) \<and>
      time_of parse (sort_by_time parse as ! i) = Some t \<and>
      time_of parse (sort_by_time parse as ! Suc i) = Some t' \<and>
      t' - t \<le> 300000 \<longrightarrow>
      (\<exists>s\<in>set (SessionAnalysis.sessions (analyzeWorkSessions parse as)). \<exists>us vs.
         activities s = us @ [sort_by_time parse as ! i, sort_by_time parse as ! Suc i] @ vs))"
proof (intro conjI ballI allI impI)
  fix g assume "g \<in> set (SessionAnalysis.gaps (analyzeWorkSessions parse as))"
  with analyze_gaps_ok [of parse as] have ok: "gap_ok g" by (simp add: list_all_iff)
  from ok show "TimeGap.durationMinutes g > 5" by (simp add: gap_ok_def)
  from gap_ok_span [OF ok] show "300000 < TimeGap.endTime g - TimeGap.startTime g" by simp
  { assume "TimeGap.durationMinutes g = 60"
    with ok show "reason g = away_from_computer" by (simp add: gap_ok_def) }
  { assume "TimeGap.durationMinutes g = 61"
    with ok show "reason g = app_closed" by (simp add: gap_ok_def) }
next
  fix i t t'
  assume h: "Suc i < length (sort_by_time parse as) \<and>
      time_of parse (sort_by_time parse as ! i) = Some t \<and>
      time_of parse (sort_by_time parse as ! Suc i) = Some t' \<and> t' - t \<le> 300000"
  then have ne: "as \<noteq> []" by (auto simp: sort_by_time_Nil)
  from h have "pair_kept (sort_by_time parse as ! i) (sort_by_time parse as ! Suc i)
          (run_loop parse (sort_by_time parse as))"
    by (intro run_loop_joins) auto
  from close_last_pair_kept [OF this] ne
  show "\<exists>s\<in>set (SessionAnalysis.sessions (analyzeWorkSessions parse as)). \<exists>us vs.
         activities s = us @ [sort_by_time parse as ! i, sort_by_time parse as ! Suc i] @ vs"
    by (simp add: analyzeWorkSessions_def Let_def adjacent_in_def)
qed


theorem gap_threshold_and_classification_witness:
  "map (\<lambda>g. (TimeGap.durationMinutes g, reason g))
     (SessionAnalysis.gaps (analyzeWorkSessions boundary_clock boundary_day))
     = [(60, away_from_computer), (61, app_closed)] \<and>
   time_of boundary_clock (boundary_day ! 0) = Some 1709283600000 \<and>
   time_of boundary_clock (boundary_day ! 1) = Some (1709283600000 + 300000) \<and>
   (\<exists>s\<in>set (SessionAnalysis.sessions (analyzeWorkSessions boundary_clock boundary_day)).
      \<exists>us vs. activities s = us @ [boundary_day ! 0, boundary_day ! 1] @ vs)"
proof -
  have gs: "map (\<lambda>g. (TimeGap.durationMinutes g, reason g))
     (SessionAnalysis.gaps (analyzeWorkSessions boundary_clock boundary_day))
     = [(60, away_from_computer), (61, app_closed)]"
    by code_simp
  have srt: "sort_by_time boundary_clock boundary_day = boundary_day" by code_simp
  have t0: "time_of boundary_clock (boundary_day ! 0) = Some 1709283600000"
    by (simp add: boundary_day_def sample_record_def time_of_def boundary_clock_def)
  have t1: "time_of boundary_clock (boundary_day ! 1) = Some (1709283600000 + 300000)"
    by (simp add: boundary_day_def sample_record_def time_of_def boundary_clock_def)
  have len: "Suc 0 < length boundary_day" by (simp add: boundary_day_def)
  from gap_threshold_and_classification [of boundary_clock boundary_day]
  have "\<forall>i t t'. Suc i < length boundary_day \<and>
      time_of boundary_clock (boundary_day ! i) = Some t \<and>
      time_of boundary_clock (boundary_day ! Suc i) = Some t' \<and> t' - t \<le> 300000 \<longrightarrow>
      (\<exists>s\<in>set (SessionAnalysis.sessions (analyzeWorkSessions boundary_clock boundary_day)).
         \<exists>us vs. activities s = us @ [boundary_day ! i, boundary_day ! Suc i] @ vs)"
    unfolding srt by (rule conjunct2)
  from this [rule_format, of 0 1709283600000 "1709283600000 + 300000"] len t0 t1
  have "\<exists>s\<in>set (SessionAnalysis.sessions (analyzeWorkSessions boundary_clock boundary_day)).
      \<exists>us vs. activities s = us @ [boundary_day ! 0, boundary_day ! 1] @ vs"
    by simp
  with gs t0 t1 show ?thesis by blast
qed

text \<open>
  Claim C3. The data quality is \<open>low\<close> when there are more than 5 warnings or no input
  records, \<open>medium\<close> when there is a warning or there are fewer than 10 records, and
  \<open>high\<close> otherwise. On the empty list the analysis is returned, not thrown: no sessions,
  no gaps, zero totals, quality \<open>low\<close> and the one warning that no data was provided.
\<close>

theorem data_quality_rule:
  "dataQuality (analyzeWorkSessions parse as) =
     (if 5 < length (SessionAnalysis.warnings (analyzeWorkSessions parse as)) \<or> length as = 0
      then low
      else if 0 < length (SessionAnalysis.warnings (analyzeWorkSessions parse as)) \<or>
              length as < 10
      then medium
      else high) \<and>
   analyzeWorkSessions parse [] =
     \<lparr> SessionAnalysis.sessions = [], SessionAnalysis.gaps = [], totalActiveMinutes = 0,
       totalGapMinutes = 0, dataQuality = low,
       SessionAnalysis.warnings = [''No activity data provided''] \<rparr>"
  by (simp add: analyzeWorkSessions_def Let_def assess_quality_def)

theorem data_quality_rule_witness:
  "SessionAnalysis.warnings (analyzeWorkSessions sample_clock sample_day) = [] \<and>
   length sample_day = 6 \<and>
   dataQuality (analyzeWorkSessions sample_clock sample_day) = medium"
proof -
  have w: "SessionAnalysis.warnings (analyzeWorkSessions sample_clock sample_day) = []"
    by code_simp
  have l: "length sample_day = 6" by (simp add: sample_day_def)
  from data_quality_rule [of sample_clock sample_day] w l show ?thesis by simp
qed

section \<open>Calls to the language model: proofs\<close>

lemma retry_loop_answered:
  assumes "attempt \<le> maxRetries" "svc (calls w) = Inr r"
  shows "retry_loop (generateContent svc) maxRetries attempt lastError w =
           (Inr r, w\<lparr> calls := Suc (calls w) \<rparr>)"
  using assms by (subst retry_loop.simps) (simp add: generateContent_def)

lemma retry_loop_refused:
  assumes "attempt \<le> maxRetries" "svc (calls w) = Inl e"
  shows "retry_loop (generateContent svc) maxRetries attempt lastError w =
           retry_loop (generateContent svc) maxRetries (Suc attempt) (Some e)
             (if attempt < maxRetries
              then w\<lparr> calls := Suc (calls w),
                      sleeps := sleeps w @ [RETRY_DELAY_MS * 2 ^ (attempt - 1)] \<rparr>
              else w\<lparr> calls := Suc (calls w) \<rparr>)"
  using assms by (subst retry_loop.simps) (simp add: generateContent_def)

lemma retry_loop_exhausted:
  assumes "maxRetries < attempt"
  shows "retry_loop operation maxRetries attempt (Some e) w =
           (Inl (Error (''Operation failed after '' @ string_of_nat maxRetries @
                        '' attempts: '' @ message e)), w)"
  using assms by (subst retry_loop.simps) simp

lemma retry_first:
  assumes "svc (calls w) = Inr r"
  shows "retryWithBackoff (generateContent svc) 3 w = (Inr r, w\<lparr> calls := calls w + 1 \<rparr>)"
  unfolding retryWithBackoff_def
  using retry_loop_answered [of "Suc 0" 3 svc w r None] assms by simp

lemma retry_one_failure:
  assumes "svc (calls w) = Inl e1"
  shows "retry_loop (generateContent svc) 3 (Suc 0) None w =
         retry_loop (generateContent svc) 3 (Suc (Suc 0)) (Some e1)
           (w\<lparr> calls := Suc (calls w), sleeps := sleeps w @ [1000] \<rparr>)"
  using retry_loop_refused [of "Suc 0" 3 svc w e1 None] assms
  by (simp add: RETRY_DELAY_MS_def)

lemma retry_two_failures:
  assumes "svc (calls w) = Inl e1" "svc (calls w + 1) = Inl e2"
  shows "retry_loop (generateContent svc) 3 (Suc 0) None w =
         retry_loop (generateContent svc) 3 (Suc (Suc (Suc 0))) (Some e2)
           (w\<lparr> calls := Suc (Suc (calls w)), sleeps := sleeps w @ [1000, 2000] \<rparr>)"
  using retry_loop_refused
          [of "Suc (Suc 0)" 3 svc "w\<lparr> calls := Suc (calls w), sleeps := sleeps w @ [1000] \<rparr>" e2 "Some e1"]
        assms
  by (simp add: retry_one_failure RETRY_DELAY_MS_def)

lemma retry_second:
  assumes "svc (calls w) = Inl e1" "svc (calls w + 1) = Inr r"
  shows "retryWithBackoff (generateContent svc) 3 w =
           (Inr r, w\<lparr> calls := calls w + 2, sleeps := sleeps w @ [1000] \<rparr>)"
  unfolding retryWithBackoff_def
  using retry_loop_answered
          [of "Suc (Suc 0)" 3 svc "w\<lparr> calls := Suc (calls w), sleeps := sleeps w @ [1000] \<rparr>" r "Some e1"]
        assms
  by (simp add: retry_one_failure)

lemma retry_third:
  assumes "svc (calls w) = Inl e1" "svc (calls w + 1) = Inl e2" "svc (calls w + 2) = Inr r"
  shows "retryWithBackoff (generateContent svc) 3 w =
           (Inr r, w\<lparr> calls := calls w + 3, sleeps := sleeps w @ [1000, 2000] \<rparr>)"
  unfolding retryWithBackoff_def
  using retry_loop_answered
          [of "Suc (Suc (Suc 0))" 3 svc "w\<lparr> calls := Suc (Suc (calls w)), sleeps := sleeps w @ [1000, 2000] \<rparr>" r "Some e2"]
        assms
  by (simp add: retry_two_failures)

lemma retry_exhausted:
  assumes "svc (calls w) = Inl e1" "svc (calls w + 1) = Inl e2" "svc (calls w + 2) = Inl e3"
  shows "retryWithBackoff (generateContent svc) 3 w =
           (Inl (Error (''Operation failed after 3 attempts: '' @ message e3)),
            w\<lparr> calls := calls w + 3, sleeps := sleeps w @ [1000, 2000] \<rparr>)"
proof -
  have three: "string_of_nat 3 = ''3''" by (simp add: string_of_nat.simps)
  show ?thesis
    unfolding retryWithBackoff_def
    using retry_loop_refused
            [of "Suc (Suc (Suc 0))" 3 svc "w\<lparr> calls := Suc (Suc (calls w)), sleeps := sleeps w @ [1000, 2000] \<rparr>" e3 "Some e2"]
          assms
    by (simp add: retry_two_failures retry_loop_exhausted three)
qed


lemma retry_answered_at:
  assumes k: "k < 3" and a: "answered_at svc (calls w) k result"
  shows "retryWithBackoff (generateContent svc) 3 w =
           (Inr result, w\<lparr> calls := calls w + k + 1,
                           sleeps := sleeps w @ map (\<lambda>i. RETRY_DELAY_MS * 2 ^ i) [0..<k] \<rparr>)"
proof -
  from k consider "k = 0" | "k = 1" | "k = 2" by linarith
  then show ?thesis
  proof cases
    case 1
    with a have "svc (calls w) = Inr result" by (simp add: answered_at_def)
    with retry_first [of svc w result] 1 show ?thesis by simp
  next
    case 2
    with a obtain e1 where "svc (calls w) = Inl e1" "svc (calls w + 1) = Inr result"
      by (auto simp: answered_at_def isl_def)
    with retry_second [of svc w e1 result] 2 show ?thesis by (simp add: RETRY_DELAY_MS_def)
  next
    case 3
    with a have all: "\<forall>i<2. isl (svc (calls w + i))" and r: "svc (calls w + 2) = Inr result"
      by (simp_all add: answered_at_def)
    from all [rule_format, of 0] all [rule_format, of 1]
    obtain e1 e2 where "svc (calls w) = Inl e1" "svc (calls w + 1) = Inl e2"
      by (auto simp: isl_def)
    with retry_third [of svc w e1 e2 result] r 3 show ?thesis
      by (simp add: RETRY_DELAY_MS_def upt_conv_Cons numeral_2_eq_2)
  qed
qed

lemma retry_all_refused:
  assumes "\<forall>i<3. isl (svc (calls w + i))"
  shows "\<exists>e. retryWithBackoff (generateContent svc) 3 w =
           (Inl e, w\<lparr> calls := calls w + 3, sleeps := sleeps w @ [1000, 2000] \<rparr>)"
proof -
  from assms [rule_format, of 0] assms [rule_format, of 1] assms [rule_format, of 2]
  obtain e1 e2 e3 where "svc (calls w) = Inl e1" "svc (calls w + 1) = Inl e2"
    "svc (calls w + 2) = Inl e3"
    by (auto simp: isl_def)
  with retry_exhausted [of svc w e1 e2 e3] show ?thesis by blast
qed

lemma reply_rejected_iff:
  "reply_rejected p result \<longleftrightarrow> isl (classification_of_response p result)"
  by (auto simp: reply_rejected_def classification_of_response_def split: sum.splits)

lemma classify_read_fails:
  assumes "path \<noteq> []" "isl (readFile p path)"
  shows "classifyProductivityActivity p (PathString path) w = (Inr fallback_record, w)"
  using assms
  by (auto simp: classifyProductivityActivity_def classify_attempt_def readImageFile_def isl_def)

lemma classify_all_refused:
  assumes "path \<noteq> []" "readFile p path = Inr data" "\<forall>i<3. isl (model p (calls w + i))"
  shows "classifyProductivityActivity p (PathString path) w =
           (Inr fallback_record, w\<lparr> calls := calls w + 3, sleeps := sleeps w @ [1000, 2000] \<rparr>)"
proof -
  from retry_all_refused [OF assms(3)] obtain e where
    "retryWithBackoff (generateContent (model p)) 3 w =
       (Inl e, w\<lparr> calls := calls w + 3, sleeps := sleeps w @ [1000, 2000] \<rparr>)" ..
  with assms(1,2) show ?thesis
    by (simp add: classifyProductivityActivity_def classify_attempt_def readImageFile_def
        MAX_PROMPT_RETRIES_def)
qed

lemma classify_answered:
  assumes "path \<noteq> []" "readFile p path = Inr data" "k < 3"
    "answered_at (model p) (calls w) k result"
  shows "classifyProductivityActivity p (PathString path) w =
           (Inr (case classification_of_response p result of
                   Inl e \<Rightarrow> fallback_record | Inr activityRecord \<Rightarrow> activityRecord),
            w\<lparr> calls := calls w + k + 1,
                sleeps := sleeps w @ map (\<lambda>i. RETRY_DELAY_MS * 2 ^ i) [0..<k] \<rparr>)"
  using assms(1,2) retry_answered_at [OF assms(3,4)]
  by (simp add: classifyProductivityActivity_def classify_attempt_def readImageFile_def
      MAX_PROMPT_RETRIES_def split: sum.splits)

lemma classify_returns:
  assumes "path \<noteq> []"
  shows "\<exists>r. fst (classifyProductivityActivity p (PathString path) w) = Inr r"
  using assms
  by (simp add: classifyProductivityActivity_def split: prod.splits sum.splits)

text \<open>
  Claim C4, as the code has it. For a non-empty string path, \<open>classifyProductivityActivity\<close>
  never throws. It returns the fixed fallback record when the image cannot be read, when
  the classification call fails at each of its 3 attempts, and when the reply that is
  obtained is rejected: its text cannot be read, cleaned or parsed, or the seven required
  fields do not validate. A failure of the call at attempt 1 or 2 alone does not give the
  fallback: when the image is readable and one of the 3 attempts is answered with a reply
  that validates, the record parsed from that reply is returned. The fallback record holds
  \<open>work_unrelated\<close>, \<open>break\<close>, \<open>new_task\<close>, \<open>multiple_contexts\<close>, \<open>none\<close> and
  \<open>low_energy_tasks\<close>.
\<close>

theorem classification_falls_back_after_retries:
  assumes "path \<noteq> []"
  shows "(\<exists>r. fst (classifyProductivityActivity p (PathString path) w) = Inr r) \<and>
         (isl (readFile p path) \<longrightarrow>
            fst (classifyProductivityActivity p (PathString path) w) = Inr fallback_record) \<and>
         ((\<forall>i<3. isl (model p (calls w + i))) \<longrightarrow>
            fst (classifyProductivityActivity p (PathString path) w) = Inr fallback_record) \<and>
         (\<forall>k result. k < 3 \<and> answered_at (model p) (calls w) k result \<and> reply_rejected p result \<longrightarrow>
            fst (classifyProductivityActivity p (PathString path) w) = Inr fallback_record) \<and>
         (\<forall>k result activityRecord.
            \<not> isl (readFile p path) \<and> k < 3 \<and> answered_at (model p) (calls w) k result \<and>
            classification_of_response p result = Inr activityRecord \<longrightarrow>
            fst (classifyProductivityActivity p (PathString path) w) = Inr activityRecord) \<and>
         map (map_of fallback_record)
           [''goal_relevance'', ''cognitive_state'', ''context_switching'', ''attention_residue'',
            ''procrastination_signal'', ''energy_level'']
         = map (Some \<circ> JString)
           [''work_unrelated'', ''break'', ''new_task'', ''multiple_contexts'', ''none'',
            ''low_energy_tasks'']"
proof (intro conjI impI allI)
  show "\<exists>r. fst (classifyProductivityActivity p (PathString path) w) = Inr r"
    by (rule classify_returns [OF assms])
next
  assume "isl (readFile p path)"
  from classify_read_fails [OF assms this]
  show "fst (classifyProductivityActivity p (PathString path) w) = Inr fallback_record" by simp
next
  assume all: "\<forall>i<3. isl (model p (calls w + i))"
  show "fst (classifyProductivityActivity p (PathString path) w) = Inr fallback_record"
  proof (cases "readFile p path")
    case (Inl e)
    then have "isl (readFile p path)" by simp
    from classify_read_fails [OF assms this] show ?thesis by simp
  next
    case (Inr data)
    from classify_all_refused [OF assms Inr all] show ?thesis by simp
  qed
next
  fix k result
  assume h: "k < 3 \<and> answered_at (model p) (calls w) k result \<and> reply_rejected p result"
  show "fst (classifyProductivityActivity p (PathString path) w) = Inr fallback_record"
  proof (cases "readFile p path")
    case (Inl e)
    then have "isl (readFile p path)" by simp
    from classify_read_fails [OF assms this] show ?thesis by simp
  next
    case (Inr data)
    from h have "isl (classification_of_response p result)" by (simp add: reply_rejected_iff)
    then obtain e where "classification_of_response p result = Inl e" by (auto simp: isl_def)
    with classify_answered [OF assms Inr, of k w result] h show ?thesis by simp
  qed
next
  fix k result activityRecord
  assume h: "\<not> isl (readFile p path) \<and> k < 3 \<and> answered_at (model p) (calls w) k result \<and>
            classification_of_response p result = Inr activityRecord"
  then obtain data where rd: "readFile p path = Inr data"
    by (cases "readFile p path") simp_all
  from h have k: "k < 3" and a: "answered_at (model p) (calls w) k result"
    and c: "classification_of_response p result = Inr activityRecord"
    by simp_all
  from classify_answered [OF assms rd k a] c
  show "fst (classifyProductivityActivity p (PathString path) w) = Inr activityRecord" by simp
next
  show "map (map_of fallback_record)
           [''goal_relevance'', ''cognitive_state'', ''context_switching'', ''attention_residue'',
            ''procrastination_signal'', ''energy_level'']
         = map (Some \<circ> JString)
           [''work_unrelated'', ''break'', ''new_task'', ''multiple_contexts'', ''none'',
            ''low_energy_tasks'']"
    by (simp add: fallback_record_def)
qed

theorem classification_falls_back_after_retries_witness:
  "''shot.png'' \<noteq> [] \<and>
   fst (classifyProductivityActivity (sample_platform (outage 3 sample_reply_text))
          (PathString ''shot.png'') fresh_world) = Inr fallback_record \<and>
   fst (classifyProductivityActivity (sample_platform (outage 0 ''Sorry, I cannot help.''))
          (PathString ''shot.png'') fresh_world) = Inr fallback_record \<and>
   fst (classifyProductivityActivity (sample_platform (outage 0 partial_reply_text))
          (PathString ''shot.png'') fresh_world) = Inr fallback_record \<and>
   fst (classifyProductivityActivity (sample_platform (outage 0 sample_reply_text))
          (PathString ''missing.png'') fresh_world) = Inr fallback_record \<and>
   fst (classifyProductivityActivity (sample_platform (outage 2 sample_reply_text))
          (PathString ''shot.png'') fresh_world) = Inr sample_classification"
proof -
  have ne: "''shot.png'' \<noteq> []" "''missing.png'' \<noteq> []" by simp_all
  have down: "\<forall>i<3. isl (model (sample_platform (outage 3 sample_reply_text))
                            (calls fresh_world + i))"
    by (simp add: sample_platform_def outage_def fresh_world_def)
  have ans: "answered_at (model (sample_platform (outage 0 ''Sorry, I cannot help.'')))
               (calls fresh_world) 0 (Text ''Sorry, I cannot help.'')"
    by (simp add: answered_at_def sample_platform_def outage_def fresh_world_def)
  have rej: "reply_rejected (sample_platform (outage 0 ''Sorry, I cannot help.''))
               (Text ''Sorry, I cannot help.'')"
    by code_simp
  have pans: "answered_at (model (sample_platform (outage 0 partial_reply_text)))
               (calls fresh_world) 0 (Text partial_reply_text)"
    by (simp add: answered_at_def sample_platform_def outage_def fresh_world_def)
  have prej: "reply_rejected (sample_platform (outage 0 partial_reply_text))
               (Text partial_reply_text)"
    by code_simp
  have rd: "isl (readFile (sample_platform (outage 0 sample_reply_text)) ''missing.png'')"
    by (simp add: sample_platform_def)
  have ok: "\<not> isl (readFile (sample_platform (outage 2 sample_reply_text)) ''shot.png'')"
    by (simp add: sample_platform_def)
  have late: "answered_at (model (sample_platform (outage 2 sample_reply_text)))
               (calls fresh_world) 2 (Text sample_reply_text)"
    by (simp add: answered_at_def sample_platform_def outage_def fresh_world_def)
  have cls: "classification_of_response (sample_platform (outage 2 sample_reply_text))
               (Text sample_reply_text) = Inr sample_classification"
    by code_simp
  from classification_falls_back_after_retries
         [OF ne(1), of "sample_platform (outage 3 sample_reply_text)" fresh_world] down
  have 1: "fst (classifyProductivityActivity (sample_platform (outage 3 sample_reply_text))
          (PathString ''shot.png'') fresh_world) = Inr fallback_record"
    by blast
  from classification_falls_back_after_retries
         [OF ne(1), of "sample_platform (outage 0 ''Sorry, I cannot help.'')" fresh_world]
       ans rej
  have 2: "fst (classifyProductivityActivity (sample_platform (outage 0 ''Sorry, I cannot help.''))
          (PathString ''shot.png'') fresh_world) = Inr fallback_record"
    by (metis zero_less_numeral)
  from classification_falls_back_after_retries
         [OF ne(1), of "sample_platform (outage 0 partial_reply_text)" fresh_world]
       pans prej
  have 3: "fst (classifyProductivityActivity (sample_platform (outage 0 partial_reply_text))
          (PathString ''shot.png'') fresh_world) = Inr fallback_record"
    by (metis zero_less_numeral)
  from classification_falls_back_after_retries
         [OF ne(2), of "sample_platform (outage 0 sample_reply_text)" fresh_world] rd
  have 4: "fst (classifyProductivityActivity (sample_platform (outage 0 sample_reply_text))
          (PathString ''missing.png'') fresh_world) = Inr fallback_record"
    by blast
  have two: "(2::nat) < 3" by simp
  from classification_falls_back_after_retries
         [OF ne(1), of "sample_platform (outage 2 sample_reply_text)" fresh_world]
  have "\<not> isl (readFile (sample_platform (outage 2 sample_reply_text)) ''shot.png'') \<and>
        (2::nat) < 3 \<and>
        answered_at (model (sample_platform (outage 2 sample_reply_text)))
          (calls fresh_world) 2 (Text sample_reply_text) \<and>
        classification_of_response (sample_platform (outage 2 sample_reply_text))
          (Text sample_reply_text) = Inr sample_classification \<longrightarrow>
        fst (classifyProductivityActivity (sample_platform (outage 2 sample_reply_text))
          (PathString ''shot.png'') fresh_world) = Inr sample_classification"
    by blast
  with ok two late cls
  have 5: "fst (classifyProductivityActivity (sample_platform (outage 2 sample_reply_text))
          (PathString ''shot.png'') fresh_world) = Inr sample_classification"
    by blast
  from ne 1 2 3 4 5 show ?thesis by blast
qed

text \<open>
  Claim C4 as stated fails when the classification call fails and is retried: the image
  is readable, the first request is refused, the second is answered, and the record parsed
  from that answer is returned, not the fallback.
\<close>

theorem fallback_on_failed_call_counterexample:
  "readFile (sample_platform (outage 1 sample_reply_text)) ''shot.png'' = Inr ''PNG'' \<and>
   generateContent (model (sample_platform (outage 1 sample_reply_text))) fresh_world
     = (Inl (Error ''network error on request 0''), \<lparr> calls = 1, sleeps = [] \<rparr>) \<and>
   fst (classifyProductivityActivity (sample_platform (outage 1 sample_reply_text))
          (PathString ''shot.png'') fresh_world) = Inr sample_classification \<and>
   map_of sample_classification ''goal_relevance'' = Some (JString ''goal_related'') \<and>
   map_of fallback_record ''goal_relevance'' = Some (JString ''work_unrelated'')"
proof -
  have 1: "readFile (sample_platform (outage 1 sample_reply_text)) ''shot.png'' = Inr ''PNG''"
    by (simp add: sample_platform_def)
  have 2: "generateContent (model (sample_platform (outage 1 sample_reply_text))) fresh_world
     = (Inl (Error ''network error on request 0''), \<lparr> calls = 1, sleeps = [] \<rparr>)"
    by code_simp
  have 3: "fst (classifyProductivityActivity (sample_platform (outage 1 sample_reply_text))
          (PathString ''shot.png'') fresh_world) = Inr sample_classification"
    by code_simp
  have 4: "map_of sample_classification ''goal_relevance'' = Some (JString ''goal_related'')"
    by (simp add: sample_classification_def)
  have 5: "map_of fallback_record ''goal_relevance'' = Some (JString ''work_unrelated'')"
    by (simp add: fallback_record_def)
  from 1 2 3 4 5 show ?thesis by blast
qed

text \<open>
  Claim C10. Called with an empty string, or with a value that is not a string,
  \<open>classifyProductivityActivity\<close> throws \<^verbatim>\<open>Invalid image path provided\<close> to its caller
  and returns no fallback record: the guard comes before the \<^verbatim>\<open>try\<close> block.
\<close>

theorem invalid_path_is_thrown:
  "classifyProductivityActivity p (PathString []) w =
     (Inl (Error ''Invalid image path provided''), w) \<and>
   classifyProductivityActivity p NotAString w =
     (Inl (Error ''Invalid image path provided''), w)"
  by (simp add: classifyProductivityActivity_def)

text \<open>
  Claim C7, as the code has it. The classification call goes through the same retry loop
  as the narrative call: for a readable image it is attempted up to 3 times, with waits of
  1000 and 2000 milliseconds between the attempts, and stops at the first attempt the
  service answers. Only when all 3 attempts are refused, or the reply obtained is rejected,
  is the failure absorbed into the fallback record.
\<close>

theorem classification_call_is_retried:
  assumes "path \<noteq> []" "readFile p path = Inr data"
  shows "(\<forall>k result. k < 3 \<and> answered_at (model p) (calls w) k result \<longrightarrow>
            classifyProductivityActivity p (PathString path) w =
              (Inr (case classification_of_response p result of
                      Inl e \<Rightarrow> fallback_record | Inr activityRecord \<Rightarrow> activityRecord),
               w\<lparr> calls := calls w + k + 1,
                   sleeps := sleeps w @ map (\<lambda>i. RETRY_DELAY_MS * 2 ^ i) [0..<k] \<rparr>)) \<and>
         ((\<forall>i<3. isl (model p (calls w + i))) \<longrightarrow>
            classifyProductivityActivity p (PathString path) w =
              (Inr fallback_record,
               w\<lparr> calls := calls w + 3, sleeps := sleeps w @ [1000, 2000] \<rparr>))"
  using classify_answered [OF assms] classify_all_refused [OF assms] by blast




theorem classification_call_is_retried_witness:
  "''shot.png'' \<noteq> [] \<and>
   classifyProductivityActivity (sample_platform (outage 2 sample_reply_text))
     (PathString ''shot.png'') fresh_world
     = (Inr sample_classification, \<lparr> calls = 3, sleeps = [1000, 2000] \<rparr>) \<and>
   classifyProductivityActivity (sample_platform (outage 3 sample_reply_text))
     (PathString ''shot.png'') fresh_world
     = (Inr fallback_record, \<lparr> calls = 3, sleeps = [1000, 2000] \<rparr>)"
proof -
  have ne: "''shot.png'' \<noteq> []" by simp
  have rd: "\<And>svc. readFile (sample_platform svc) ''shot.png'' = Inr ''PNG''"
    by (simp add: sample_platform_def)
  have ans: "answered_at (model (sample_platform (outage 2 sample_reply_text)))
               (calls fresh_world) 2 (Text sample_reply_text)"
    by (simp add: answered_at_def sample_platform_def outage_def fresh_world_def)
  have cls: "classification_of_response (sample_platform (outage 2 sample_reply_text))
               (Text sample_reply_text) = Inr sample_classification"
    by code_simp
  have down: "\<forall>i<3. isl (model (sample_platform (outage 3 sample_reply_text))
                            (calls fresh_world + i))"
    by (simp add: sample_platform_def outage_def fresh_world_def)
  from classification_call_is_retried [OF ne rd, of "outage 2 sample_reply_text" fresh_world]
  have "2 < (3::nat) \<and> answered_at (model (sample_platform (outage 2 sample_reply_text)))
               (calls fresh_world) 2 (Text sample_reply_text) \<longrightarrow>
        classifyProductivityActivity (sample_platform (outage 2 sample_reply_text))
          (PathString ''shot.png'') fresh_world =
          (Inr (case classification_of_response (sample_platform (outage 2 sample_reply_text))
                       (Text sample_reply_text) of
                  Inl e \<Rightarrow> fallback_record | Inr activityRecord \<Rightarrow> activityRecord),
           fresh_world\<lparr> calls := calls fresh_world + 2 + 1,
                         sleeps := sleeps fresh_world @
                                   map (\<lambda>i. RETRY_DELAY_MS * 2 ^ i) [0..<2] \<rparr>)"
    by blast
  with ans cls
  have 1: "classifyProductivityActivity (sample_platform (outage 2 sample_reply_text))
     (PathString ''shot.png'') fresh_world
     = (Inr sample_classification, \<lparr> calls = 3, sleeps = [1000, 2000] \<rparr>)"
    by (simp add: fresh_world_def RETRY_DELAY_MS_def upt_conv_Cons numeral_2_eq_2)
  from classification_call_is_retried [OF ne rd, of "outage 3 sample_reply_text" fresh_world] down
  have 2: "classifyProductivityActivity (sample_platform (outage 3 sample_reply_text))
     (PathString ''shot.png'') fresh_world
     = (Inr fallback_record, \<lparr> calls = 3, sleeps = [1000, 2000] \<rparr>)"
    by (simp add: fresh_world_def)
  from ne 1 2 show ?thesis by blast
qed

text \<open>
  Claim C7 as stated fails: when the first request is refused and the second is answered,
  the classification path has sent two requests, has waited between them, and returns the
  parsed record, not the fallback.
\<close>

theorem classification_single_call_counterexample:
  "model (sample_platform (outage 1 sample_reply_text)) (calls fresh_world)
     = Inl (Error ''network error on request 0'') \<and>
   classifyProductivityActivity (sample_platform (outage 1 sample_reply_text))
     (PathString ''shot.png'') fresh_world
     = (Inr sample_classification, \<lparr> calls = 2, sleeps = [1000] \<rparr>) \<and>
   sample_classification \<noteq> fallback_record"
proof -
  have 1: "model (sample_platform (outage 1 sample_reply_text)) (calls fresh_world)
     = Inl (Error ''network error on request 0'')"
    by code_simp
  have 2: "classifyProductivityActivity (sample_platform (outage 1 sample_reply_text))
     (PathString ''shot.png'') fresh_world
     = (Inr sample_classification, \<lparr> calls = 2, sleeps = [1000] \<rparr>)"
    by code_simp
  have 3: "sample_classification \<noteq> fallback_record"
    by (simp add: sample_classification_def fallback_record_def)
  from 1 2 3 show ?thesis by blast
qed




section \<open>The capture queues: proofs\<close>

lemma push_bounded_length:
  "length q \<le> 5 \<Longrightarrow> length (fst (push_bounded u path q)) \<le> 5"
  by (cases q) (simp_all add: push_bounded_def MAX_SCREENSHOTS_def Let_def)

lemma takeScreenshot_bounded:
  assumes "length (screenshotQueue h) \<le> 5 \<and> length (extraScreenshotQueue h) \<le> 5"
  shows "length (screenshotQueue (fst (snd (takeScreenshot ext h)))) \<le> 5 \<and>
         length (extraScreenshotQueue (fst (snd (takeScreenshot ext h)))) \<le> 5"
  using assms push_bounded_length [of "screenshotQueue h" "unlink_error ext"]
    push_bounded_length [of "extraScreenshotQueue h" "unlink_error ext"]
  by (simp add: takeScreenshot_def Let_def case_prod_beta split: option.splits)

lemma perform_bounded:
  assumes "length (screenshotQueue h) \<le> 5 \<and> length (extraScreenshotQueue h) \<le> 5"
  shows "length (screenshotQueue (perform h c)) \<le> 5 \<and>
         length (extraScreenshotQueue (perform h c)) \<le> 5"
  using assms takeScreenshot_bounded [OF assms] by (cases c) simp_all

lemma perform_all_bounded:
  assumes "length (screenshotQueue h) \<le> 5 \<and> length (extraScreenshotQueue h) \<le> 5"
  shows "length (screenshotQueue (perform_all h cs)) \<le> 5 \<and>
         length (extraScreenshotQueue (perform_all h cs)) \<le> 5"
  unfolding perform_all_def
  by (rule foldl_invariant [where Q = "\<lambda>h. length (screenshotQueue h) \<le> 5 \<and>
        length (extraScreenshotQueue h) \<le> 5"]) (simp_all add: assms perform_bounded)

lemma push_bounded_full:
  assumes "c1 \<noteq> []"
  shows "push_bounded u path [c1, c2, c3, c4, c5] =
           ([c2, c3, c4, c5, path],
            Unlink c1 # (case u of None \<Rightarrow> [] | Some e \<Rightarrow> [ConsoleError]))"
  using assms by (simp add: push_bounded_def MAX_SCREENSHOTS_def Let_def)

text \<open>
  Claim C8. Pushing a sixth capture onto a queue of five evicts exactly the oldest entry
  and deletes its file, and leaves the second to the sixth capture in their order; this
  holds for the primary queue and for the extra queue. Whatever sequence of captures and
  view changes is performed, on a new helper or on one whose queues hold at most five
  entries, no queue ever holds more than five.
\<close>

theorem queue_evicts_oldest_and_stays_bounded:
  "(view h = queue \<and> screenshotQueue h = [c1, c2, c3, c4, c5] \<and> c1 \<noteq> [] \<and>
    screenshot_error ext = None \<longrightarrow>
      takeScreenshot ext h =
        (Inr (path_join (screenshotDir h) (uuid ext @ ''.png'')),
         h\<lparr> screenshotQueue :=
               [c2, c3, c4, c5, path_join (screenshotDir h) (uuid ext @ ''.png'')] \<rparr>,
         [HideMainWindow, Screenshot (path_join (screenshotDir h) (uuid ext @ ''.png'')),
          Unlink c1] @
         (case unlink_error ext of None \<Rightarrow> [] | Some e \<Rightarrow> [ConsoleError]) @
         [ShowMainWindow])) \<and>
   (view h = solutions \<and> extraScreenshotQueue h = [c1, c2, c3, c4, c5] \<and> c1 \<noteq> [] \<and>
    screenshot_error ext = None \<longrightarrow>
      takeScreenshot ext h =
        (Inr (path_join (extraScreenshotDir h) (uuid ext @ ''.png'')),
         h\<lparr> extraScreenshotQueue :=
               [c2, c3, c4, c5, path_join (extraScreenshotDir h) (uuid ext @ ''.png'')] \<rparr>,
         [HideMainWindow, Screenshot (path_join (extraScreenshotDir h) (uuid ext @ ''.png'')),
          Unlink c1] @
         (case unlink_error ext of None \<Rightarrow> [] | Some e \<Rightarrow> [ConsoleError]) @
         [ShowMainWindow])) \<and>
   (length (screenshotQueue h) \<le> 5 \<and> length (extraScreenshotQueue h) \<le> 5 \<longrightarrow>
      length (screenshotQueue (perform_all h cs)) \<le> 5 \<and>
      length (extraScreenshotQueue (perform_all h cs)) \<le> 5) \<and>
   length (screenshotQueue (perform_all (new_ScreenshotHelper dir extraDir v) cs)) \<le> 5 \<and>
   length (extraScreenshotQueue (perform_all (new_ScreenshotHelper dir extraDir v) cs)) \<le> 5"
proof (intro conjI impI)
  assume "view h = queue \<and> screenshotQueue h = [c1, c2, c3, c4, c5] \<and> c1 \<noteq> [] \<and>
    screenshot_error ext = None"
  then show "takeScreenshot ext h =
        (Inr (path_join (screenshotDir h) (uuid ext @ ''.png'')),
         h\<lparr> screenshotQueue :=
               [c2, c3, c4, c5, path_join (screenshotDir h) (uuid ext @ ''.png'')] \<rparr>,
         [HideMainWindow, Screenshot (path_join (screenshotDir h) (uuid ext @ ''.png'')),
          Unlink c1] @
         (case unlink_error ext of None \<Rightarrow> [] | Some e \<Rightarrow> [ConsoleError]) @
         [ShowMainWindow])"
    by (simp add: takeScreenshot_def Let_def push_bounded_full)
next
  assume "view h = solutions \<and> extraScreenshotQueue h = [c1, c2, c3, c4, c5] \<and> c1 \<noteq> [] \<and>
    screenshot_error ext = None"
  then show "takeScreenshot ext h =
        (Inr (path_join (extraScreenshotDir h) (uuid ext @ ''.png'')),
         h\<lparr> extraScreenshotQueue :=
               [c2, c3, c4, c5, path_join (extraScreenshotDir h) (uuid ext @ ''.png'')] \<rparr>,
         [HideMainWindow, Screenshot (path_join (extraScreenshotDir h) (uuid ext @ ''.png'')),
          Unlink c1] @
         (case unlink_error ext of None \<Rightarrow> [] | Some e \<Rightarrow> [ConsoleError]) @
         [ShowMainWindow])"
    by (simp add: takeScreenshot_def Let_def push_bounded_full)
next
  assume a: "length (screenshotQueue h) \<le> 5 \<and> length (extraScreenshotQueue h) \<le> 5"
  from perform_all_bounded [OF a]
  show "length (screenshotQueue (perform_all h cs)) \<le> 5"
    and "length (extraScreenshotQueue (perform_all h cs)) \<le> 5" by simp_all
next
  have a: "length (screenshotQueue (new_ScreenshotHelper dir extraDir v)) \<le> 5 \<and>
           length (extraScreenshotQueue (new_ScreenshotHelper dir extraDir v)) \<le> 5"
    by (simp add: new_ScreenshotHelper_def)
  from perform_all_bounded [OF a]
  show "length (screenshotQueue (perform_all (new_ScreenshotHelper dir extraDir v) cs)) \<le> 5"
    and "length (extraScreenshotQueue (perform_all (new_ScreenshotHelper dir extraDir v) cs)) \<le> 5"
    by simp_all
qed

theorem queue_evicts_oldest_and_stays_bounded_witness:
  "takeScreenshot sixth_capture sample_helper =
     (Inr ''/u/screenshots/6.png'',
      sample_helper\<lparr> screenshotQueue :=
        [''/u/screenshots/2.png'', ''/u/screenshots/3.png'', ''/u/screenshots/4.png'',
         ''/u/screenshots/5.png'', ''/u/screenshots/6.png''] \<rparr>,
      [HideMainWindow, Screenshot ''/u/screenshots/6.png'', Unlink ''/u/screenshots/1.png'',
       ShowMainWindow]) \<and>
   length (screenshotQueue sample_helper) = 5 \<and>
   length (screenshotQueue
     (perform_all sample_helper [TakeScreenshot sixth_capture, TakeScreenshot sixth_capture]))
     \<le> 5"
proof -
  have h: "view sample_helper = queue \<and>
           screenshotQueue sample_helper =
             [''/u/screenshots/1.png'', ''/u/screenshots/2.png'', ''/u/screenshots/3.png'',
              ''/u/screenshots/4.png'', ''/u/screenshots/5.png''] \<and>
           ''/u/screenshots/1.png'' \<noteq> [] \<and> screenshot_error sixth_capture = None"
    by (simp add: sample_helper_def sixth_capture_def)
  have b: "length (screenshotQueue sample_helper) \<le> 5 \<and>
           length (extraScreenshotQueue sample_helper) \<le> 5"
    by (simp add: sample_helper_def)
  note q = queue_evicts_oldest_and_stays_bounded
             [of sample_helper "''/u/screenshots/1.png''" "''/u/screenshots/2.png''"
                 "''/u/screenshots/3.png''" "''/u/screenshots/4.png''" "''/u/screenshots/5.png''"
                 sixth_capture
                 "[TakeScreenshot sixth_capture, TakeScreenshot sixth_capture]"]
  from q h have "takeScreenshot sixth_capture sample_helper =
        (Inr (path_join (screenshotDir sample_helper) (uuid sixth_capture @ ''.png'')),
         sample_helper\<lparr> screenshotQueue :=
               [''/u/screenshots/2.png'', ''/u/screenshots/3.png'', ''/u/screenshots/4.png'',
                ''/u/screenshots/5.png'',
                path_join (screenshotDir sample_helper) (uuid sixth_capture @ ''.png'')] \<rparr>,
         [HideMainWindow,
          Screenshot (path_join (screenshotDir sample_helper) (uuid sixth_capture @ ''.png'')),
          Unlink ''/u/screenshots/1.png''] @
         (case unlink_error sixth_capture of None \<Rightarrow> [] | Some e \<Rightarrow> [ConsoleError]) @
         [ShowMainWindow])"
    by blast
  then have 1: "takeScreenshot sixth_capture sample_helper =
     (Inr ''/u/screenshots/6.png'',
      sample_helper\<lparr> screenshotQueue :=
        [''/u/screenshots/2.png'', ''/u/screenshots/3.png'', ''/u/screenshots/4.png'',
         ''/u/screenshots/5.png'', ''/u/screenshots/6.png''] \<rparr>,
      [HideMainWindow, Screenshot ''/u/screenshots/6.png'', Unlink ''/u/screenshots/1.png'',
       ShowMainWindow])"
    by (simp add: sample_helper_def sixth_capture_def path_join_def)
  from q b have 2: "length (screenshotQueue
     (perform_all sample_helper [TakeScreenshot sixth_capture, TakeScreenshot sixth_capture]))
     \<le> 5"
    by blast
  have 3: "length (screenshotQueue sample_helper) = 5" by (simp add: sample_helper_def)
  from 1 2 3 show ?thesis by blast
qed

text \<open>
  Claim C5 does not hold of the code. \<open>takeScreenshot\<close> calls the hide callback, then
  awaits the capture with no \<^verbatim>\<open>try\<close> and \<^verbatim>\<open>finally\<close> around it: when the capture
  throws, the call is rejected with that error and the show callback is never called.
\<close>

theorem capture_failure_skips_show:
  "fst (takeScreenshot (ext\<lparr> screenshot_error := Some e \<rparr>) h) = Inl e \<and>
   HideMainWindow \<in> set (snd (snd (takeScreenshot (ext\<lparr> screenshot_error := Some e \<rparr>) h))) \<and>
   ShowMainWindow \<notin> set (snd (snd (takeScreenshot (ext\<lparr> screenshot_error := Some e \<rparr>) h))) \<and>
   takeScreenshot failing_capture sample_helper =
     (Inl (Error ''screen capture failed''), sample_helper,
      [HideMainWindow, Screenshot ''/u/screenshots/6.png''])"
  by (simp add: takeScreenshot_def Let_def failing_capture_def sample_helper_def path_join_def)

section \<open>Numbers and the daily statistics: proofs\<close>

lemma two_powi_pos [simp]: "0 < (2::rat) powi e"
  by (simp add: power_int_def)











lemma to_double_zero [simp]: "to_double 0 = 0"
  by (simp add: to_double_def)
















end
